theory Spec2Isabelle
  imports Complex_Main "HOL-Library.Signed_Division" "HOL-Library.Monad_Syntax"
begin

section \<open>Floating-point formats\<close>

text \<open>
  A finite floating-point value is read as the real number it denotes, so the two zeros are
  one value. An operation whose result in IEEE arithmetic is not finite (an overflow, a
  division by zero) has the result \<open>None\<close>.

  \<open>round_to_format p emin emax\<close> rounds a real number to the nearest number of the binary
  format with \<open>p\<close> significant bits and exponents from \<open>emin\<close> to \<open>emax\<close>, ties to the even
  significand, with gradual underflow. \<^verbatim>\<open>double\<close> is the format \<open>53, -1022, 1023\<close>.
\<close>

definition round_ties_even :: "real \<Rightarrow> int" where
  "round_ties_even x =
     (let f = \<lfloor>x\<rfloor>; r = x - of_int f
      in if r < 1/2 then f else if 1/2 < r then f + 1 else if even f then f else f + 1)"

definition ulp_exponent :: "nat \<Rightarrow> int \<Rightarrow> real \<Rightarrow> int" where
  "ulp_exponent p emin x = max \<lfloor>log 2 \<bar>x\<bar>\<rfloor> emin - (int p - 1)"

definition round_to_format :: "nat \<Rightarrow> int \<Rightarrow> int \<Rightarrow> real \<Rightarrow> real option" where
  "round_to_format p emin emax x =
     (if x = 0 then Some 0
      else
        (let e = ulp_exponent p emin x;
             y = of_int (round_ties_even (x / 2 powr of_int e)) * 2 powr of_int e
         in if \<bar>y\<bar> < 2 powr of_int (emax + 1) then Some y else None))"

definition double :: "real \<Rightarrow> real option" where
  "double = round_to_format 53 (-1022) 1023"

section \<open>The entry point \<open>ggml_cuda_compute_forward\<close>\<close>

text \<open>
  The types below are declared in \<^verbatim>\<open>ggml.h\<close>; the constructors are the tags that
  \<^verbatim>\<open>ggml-cuda.cu\<close> names. \<open>GGML_OP_OTHER n\<close> stands for every other tag of the operator
  enumeration (the ones the \<^verbatim>\<open>switch\<close> sends to \<^verbatim>\<open>default\<close>), and likewise for the
  two \<open>..._OTHER\<close> constructors of the tensor meta data.
\<close>

datatype ggml_backend = GGML_BACKEND_CPU | GGML_BACKEND_GPU | GGML_BACKEND_GPU_SPLIT

datatype ggml_op =
    GGML_OP_NONE | GGML_OP_DUP | GGML_OP_ADD | GGML_OP_MUL | GGML_OP_GELU | GGML_OP_SILU
  | GGML_OP_NORM | GGML_OP_RMS_NORM | GGML_OP_MUL_MAT | GGML_OP_SCALE | GGML_OP_CPY
  | GGML_OP_CONT | GGML_OP_RESHAPE | GGML_OP_VIEW | GGML_OP_PERMUTE | GGML_OP_TRANSPOSE
  | GGML_OP_DIAG_MASK_INF | GGML_OP_SOFT_MAX | GGML_OP_ROPE | GGML_OP_OTHER nat

datatype ggml_task_type = GGML_TASK_INIT | GGML_TASK_COMPUTE | GGML_TASK_FINALIZE

datatype cuda_op_force_t =
    CUDA_OPT_OP_FORCE_DEFAULT | CUDA_OPT_OP_FORCE_CPU | CUDA_OPT_OP_FORCE_BLAS
  | CUDA_OPT_OP_FORCE_OTHER nat

datatype compute_device_t = GGML_INFO_COMPUTE_DEVICE_GPU | GGML_INFO_COMPUTE_DEVICE_OTHER nat

text \<open>The functions a \<^verbatim>\<open>ggml_cuda_func_t\<close> pointer is set to in the \<^verbatim>\<open>switch\<close>.\<close>

datatype ggml_cuda_func_t =
    ggml_cuda_dup | ggml_cuda_add | ggml_cuda_mul | ggml_cuda_gelu | ggml_cuda_silu
  | ggml_cuda_norm | ggml_cuda_rms_norm | ggml_cuda_mul_mat | ggml_cuda_scale | ggml_cuda_cpy
  | ggml_cuda_nop | ggml_cuda_diag_mask_inf | ggml_cuda_soft_max | ggml_cuda_rope

text \<open>
  Of a tensor the entry point reads the operator, the backend, the backends of
  \<^verbatim>\<open>src[0]\<close> and \<^verbatim>\<open>src[1]\<close> (\<open>None\<close> is the null pointer) and two meta fields.
\<close>

record ggml_tensor =
  op :: ggml_op
  backend :: ggml_backend
  src0 :: "ggml_backend option"
  src1 :: "ggml_backend option"
  cuda_op_force :: cuda_op_force_t
  ggml_info_compute_op_device :: compute_device_t

record ggml_compute_params =
  ith :: int
  task_type :: ggml_task_type

text \<open>
  \<^verbatim>\<open>ggml_cuda_can_mul_mat\<close>: the statements after the unconditional \<^verbatim>\<open>return true\<close> are
  dead code and are left out. So are the reads of \<^verbatim>\<open>src1->ne[0]\<close>, \<^verbatim>\<open>dst->ne[0]\<close> and
  \<^verbatim>\<open>dst->ne[1]\<close> at the start, whose values only the dead code uses: the model is that of
  a call with valid pointers \<^verbatim>\<open>src1\<close> and \<^verbatim>\<open>dst\<close>.
\<close>

definition ggml_cuda_can_mul_mat :: "nat \<Rightarrow> ggml_tensor \<Rightarrow> bool" where
  "ggml_cuda_can_mul_mat num_devices dst =
     (if num_devices = 0 then False
      else if ggml_info_compute_op_device dst = GGML_INFO_COMPUTE_DEVICE_GPU then True
      else if cuda_op_force dst \<noteq> CUDA_OPT_OP_FORCE_DEFAULT
        then (if cuda_op_force dst \<noteq> CUDA_OPT_OP_FORCE_CPU then True else False)
      else True)"

definition any_on_device :: "ggml_tensor \<Rightarrow> bool" where
  "any_on_device tensor =
     (backend tensor = GGML_BACKEND_GPU
      \<or> (case src0 tensor of None \<Rightarrow> False
          | Some b \<Rightarrow> b = GGML_BACKEND_GPU \<or> b = GGML_BACKEND_GPU_SPLIT)
      \<or> (case src1 tensor of None \<Rightarrow> False | Some b \<Rightarrow> b = GGML_BACKEND_GPU))"

text \<open>
  The \<^verbatim>\<open>switch\<close> over the operator: \<open>None\<close> is one of its \<^verbatim>\<open>return false\<close>
  statements, \<open>Some f\<close> the function pointer it leaves in \<^verbatim>\<open>func\<close>.
\<close>

fun select_func :: "nat \<Rightarrow> ggml_tensor \<Rightarrow> ggml_op \<Rightarrow> ggml_cuda_func_t option" where
  "select_func nd t GGML_OP_DUP = (if \<not> any_on_device t then None else Some ggml_cuda_dup)"
| "select_func nd t GGML_OP_ADD = (if \<not> any_on_device t then None else Some ggml_cuda_add)"
| "select_func nd t GGML_OP_MUL = (if \<not> any_on_device t then None else Some ggml_cuda_mul)"
| "select_func nd t GGML_OP_GELU = (if \<not> any_on_device t then None else Some ggml_cuda_gelu)"
| "select_func nd t GGML_OP_SILU = (if \<not> any_on_device t then None else Some ggml_cuda_silu)"
| "select_func nd t GGML_OP_NORM = (if \<not> any_on_device t then None else Some ggml_cuda_norm)"
| "select_func nd t GGML_OP_RMS_NORM =
     (if \<not> any_on_device t then None else Some ggml_cuda_rms_norm)"
| "select_func nd t GGML_OP_MUL_MAT =
     (if \<not> any_on_device t \<and> \<not> ggml_cuda_can_mul_mat nd t then None
      else Some ggml_cuda_mul_mat)"
| "select_func nd t GGML_OP_SCALE = (if \<not> any_on_device t then None else Some ggml_cuda_scale)"
| "select_func nd t GGML_OP_CPY = (if \<not> any_on_device t then None else Some ggml_cuda_cpy)"
| "select_func nd t GGML_OP_CONT = (if \<not> any_on_device t then None else Some ggml_cuda_dup)"
| "select_func nd t GGML_OP_RESHAPE = (if \<not> any_on_device t then None else Some ggml_cuda_nop)"
| "select_func nd t GGML_OP_VIEW = (if \<not> any_on_device t then None else Some ggml_cuda_nop)"
| "select_func nd t GGML_OP_PERMUTE = (if \<not> any_on_device t then None else Some ggml_cuda_nop)"
| "select_func nd t GGML_OP_TRANSPOSE =
     (if \<not> any_on_device t then None else Some ggml_cuda_nop)"
| "select_func nd t GGML_OP_DIAG_MASK_INF =
     (if \<not> any_on_device t then None else Some ggml_cuda_diag_mask_inf)"
| "select_func nd t GGML_OP_SOFT_MAX =
     (if \<not> any_on_device t then None else Some ggml_cuda_soft_max)"
| "select_func nd t GGML_OP_ROPE = (if \<not> any_on_device t then None else Some ggml_cuda_rope)"
| "select_func nd t GGML_OP_NONE = None"
| "select_func nd t (GGML_OP_OTHER n) = None"

text \<open>
  \<^verbatim>\<open>ggml_cuda_compute_forward\<close> reads the global device count, the parameters and the
  tensor. Its only statement with an effect is the call \<^verbatim>\<open>func(src[0], src[1], tensor)\<close>;
  everything before it only reads. The model returns the boolean result together with the
  function that was called, \<open>None\<close> when the entry point returned without calling one.
\<close>

definition ggml_cuda_compute_forward ::
  "nat \<Rightarrow> ggml_compute_params \<Rightarrow> ggml_tensor \<Rightarrow> bool \<times> ggml_cuda_func_t option" where
  "ggml_cuda_compute_forward num_devices params tensor =
     (if op tensor = GGML_OP_NONE then (True, None)
      else if num_devices = 0 then (False, None)
      else if cuda_op_force tensor = CUDA_OPT_OP_FORCE_CPU then (False, None)
      else (case select_func num_devices tensor (op tensor) of
              None \<Rightarrow> (False, None)
            | Some func \<Rightarrow>
                if ith params \<noteq> 0 then (True, None)
                else if task_type params = GGML_TASK_INIT \<or> task_type params = GGML_TASK_FINALIZE
                  then (True, None)
                else (True, Some func)))"

text \<open>A tensor none of whose data is on a device: destination and both sources on the host.\<close>

definition all_on_host :: "ggml_tensor \<Rightarrow> bool" where
  "all_on_host tensor =
     (backend tensor = GGML_BACKEND_CPU
      \<and> (src0 tensor = None \<or> src0 tensor = Some GGML_BACKEND_CPU)
      \<and> (src1 tensor = None \<or> src1 tensor = Some GGML_BACKEND_CPU))"

definition host_mul_mat :: ggml_tensor where
  "host_mul_mat =
     \<lparr>op = GGML_OP_MUL_MAT, backend = GGML_BACKEND_CPU, src0 = Some GGML_BACKEND_CPU,
      src1 = Some GGML_BACKEND_CPU, cuda_op_force = CUDA_OPT_OP_FORCE_DEFAULT,
      ggml_info_compute_op_device = GGML_INFO_COMPUTE_DEVICE_OTHER 0\<rparr>"

definition compute_params0 :: ggml_compute_params where
  "compute_params0 = \<lparr>ith = 0, task_type = GGML_TASK_COMPUTE\<rparr>"

section \<open>Row windows of a split tensor\<close>

text \<open>
  \<^verbatim>\<open>#define MATRIX_SPLIT_DIVISIBLE 512\<close>. Row counts are \<^verbatim>\<open>int64_t\<close> and \<^verbatim>\<open>int\<close> in the
  source and \<open>int\<close> here (no claim depends on their overflow); \<^verbatim>\<open>/\<close> and \<^verbatim>\<open>%\<close> truncate
  towards zero (\<open>sdiv\<close>, \<open>smod\<close>). The entries of \<^verbatim>\<open>g_tensor_split\<close> are \<^verbatim>\<open>float\<close>s; they
  are read as the real numbers they denote, and the product \<^verbatim>\<open>g_tensor_split[i] * parts\<close> as
  the exact product, which it is on every input evaluated below. \<open>c_int\<close> is the conversion
  \<^verbatim>\<open>int(x)\<close> of a floating value, which drops the fraction.
\<close>

definition MATRIX_SPLIT_DIVISIBLE :: int where
  "MATRIX_SPLIT_DIVISIBLE = 512"

definition c_int :: "real \<Rightarrow> int" where
  "c_int x = (if 0 \<le> x then \<lfloor>x\<rfloor> else \<lceil>x\<rceil>)"

text \<open>
  \<^verbatim>\<open>ggml_cuda_tensor_split_custom(n_rows, device_id, row_low, row_high, padding_required)\<close>
  reads the globals \<^verbatim>\<open>g_tensor_split\<close> (a zero-initialised array of
  \<^verbatim>\<open>GGML_CUDA_MAX_DEVICES\<close> floats, here a function of the index) and
  \<^verbatim>\<open>g_device_count\<close>, and writes its three reference parameters. \<^verbatim>\<open>row_low\<close> and
  \<^verbatim>\<open>row_high\<close> are always written; \<^verbatim>\<open>padding_required\<close> only for the last device, so
  the model takes the caller's value and returns it otherwise.
\<close>

definition ggml_cuda_tensor_split_custom ::
  "(nat \<Rightarrow> real) \<Rightarrow> nat \<Rightarrow> int \<Rightarrow> nat \<Rightarrow> int \<Rightarrow> int \<times> int \<times> int" where
  "ggml_cuda_tensor_split_custom g_tensor_split g_device_count n_rows device_id padding_required =
     (let parts = n_rows sdiv MATRIX_SPLIT_DIVISIBLE;
          r = n_rows smod MATRIX_SPLIT_DIVISIBLE;
          row_low =
            (if device_id = 0 then 0
             else c_int (g_tensor_split device_id * of_int parts) * MATRIX_SPLIT_DIVISIBLE);
          row_high =
            (if device_id = 0
               then c_int (g_tensor_split (device_id + 1) * of_int parts) * MATRIX_SPLIT_DIVISIBLE
             else if int device_id \<ge> int g_device_count - 1 then n_rows
             else c_int (g_tensor_split (device_id + 1) * of_int parts) * MATRIX_SPLIT_DIVISIBLE)
      in (row_low, row_high,
          if int device_id = int g_device_count - 1 then r else padding_required))"

text \<open>
  \<^verbatim>\<open>ggml_cuda_set_tensor_split(tensor_split)\<close>: \<open>None\<close> is the null pointer. The first loop
  stores the running sums, the second divides by the total, except that a device whose own
  proportion is zero gets the break point \<open>1\<close>.
\<close>

definition split_sums :: "nat \<Rightarrow> (nat \<Rightarrow> real) \<Rightarrow> (nat \<Rightarrow> real) \<Rightarrow> (nat \<Rightarrow> real) \<times> real" where
  "split_sums num_devices tensor_split g =
     fold (\<lambda>i (g, split_sum). (g(i := split_sum), split_sum + tensor_split i))
       [0..<num_devices] (g, 0)"

definition ggml_cuda_set_tensor_split ::
  "nat \<Rightarrow> (nat \<Rightarrow> real) option \<Rightarrow> (nat \<Rightarrow> real) \<Rightarrow> (nat \<Rightarrow> real)" where
  "ggml_cuda_set_tensor_split num_devices tensor_split g_tensor_split =
     (case tensor_split of
        None \<Rightarrow> g_tensor_split
      | Some ts \<Rightarrow>
          if list_all (\<lambda>i. ts i = 0) [0..<num_devices] then g_tensor_split
          else
            (let (g, split_sum) = split_sums num_devices ts g_tensor_split
             in fold (\<lambda>i g. if ts i / split_sum = 0 then g(i := 1) else g(i := g i / split_sum))
                  [0..<num_devices] g))"

text \<open>An array of proportions given by its first entries.\<close>

definition fractions :: "real list \<Rightarrow> nat \<Rightarrow> real" where
  "fractions xs i = (if i < length xs then xs ! i else 0)"

text \<open>
  The rows \<open>[row_low, row_high)\<close> of a device, the condition that the break points of the
  devices \<open>1, \<dots>, n - 1\<close> lie in \<open>[0, 1]\<close> and do not decrease, and the cut points between
  consecutive windows.
\<close>

definition row_window :: "(nat \<Rightarrow> real) \<Rightarrow> nat \<Rightarrow> int \<Rightarrow> nat \<Rightarrow> int set" where
  "row_window g n n_rows d =
     (case ggml_cuda_tensor_split_custom g n n_rows d 0 of (lo, hi, p) \<Rightarrow> {lo..<hi})"

definition breakpoints_ok :: "(nat \<Rightarrow> real) \<Rightarrow> nat \<Rightarrow> bool" where
  "breakpoints_ok g n =
     list_all (\<lambda>i. 0 \<le> g i \<and> g i \<le> 1 \<and> (i + 1 < n \<longrightarrow> g i \<le> g (i + 1))) [1..<n]"

definition cut :: "(nat \<Rightarrow> real) \<Rightarrow> nat \<Rightarrow> int \<Rightarrow> nat \<Rightarrow> int" where
  "cut g n n_rows i =
     (if i = 0 then 0 else if n \<le> i then n_rows
      else c_int (g i * of_int (n_rows sdiv MATRIX_SPLIT_DIVISIBLE)) * MATRIX_SPLIT_DIVISIBLE)"

section \<open>The buffer pool\<close>

text \<open>
  \<^verbatim>\<open>struct cuda_buffer\<close>. Device pointers are natural numbers, \<open>0\<close> the null pointer;
  \<^verbatim>\<open>size_t\<close> values are natural numbers up to \<open>SIZE_MAX\<close>. The field \<^verbatim>\<open>size\<close> is
  \<open>size_bytes\<close> here, the parameters \<^verbatim>\<open>size\<close> and \<^verbatim>\<open>id\<close> are \<open>size'\<close> and \<open>id'\<close>.
  \<^verbatim>\<open>access_count\<close> is an \<^verbatim>\<open>int\<close>; no claim depends on its overflow.
\<close>

definition MAX_CUDA_BUFFERS :: nat where
  "MAX_CUDA_BUFFERS = 256"

definition SIZE_MAX :: nat where
  "SIZE_MAX = 2 ^ 64 - 1"

record cuda_buffer =
  ptr :: nat
  ptr_in_use :: nat
  size_bytes :: nat
  access_count :: int
  associated_tensor :: nat

text \<open>
  The state the pool functions work on: the current device of the CUDA runtime
  (\<^verbatim>\<open>cudaGetDevice\<close>), the table \<^verbatim>\<open>g_cuda_buffer_pool[GGML_CUDA_MAX_DEVICES][MAX_CUDA_BUFFERS]\<close>
  (one list of slots per device), the raw device calls \<^verbatim>\<open>cudaMalloc\<close> and \<^verbatim>\<open>cudaFree\<close>
  made so far and the lines written to \<^verbatim>\<open>stderr\<close>, both with the latest first. The spin
  lock taken by every pool function has no effect on a single thread and is left out.
\<close>

datatype cuda_call = CudaMalloc nat nat | CudaFree nat

record cuda_pool_state =
  current_device :: nat
  g_cuda_buffer_pool :: "cuda_buffer list list"
  cuda_calls :: "cuda_call list"
  stderr_log :: "string list"

definition empty_buffer :: cuda_buffer where
  "empty_buffer = \<lparr>ptr = 0, ptr_in_use = 0, size_bytes = 0, access_count = 0, associated_tensor = 0\<rparr>"

text \<open>
  The table is static and zero-initialised. \<^verbatim>\<open>GGML_CUDA_MAX_DEVICES\<close> is defined in
  \<^verbatim>\<open>ggml-cuda.h\<close>, so the number of devices is a parameter.
\<close>

definition initial_state :: "nat \<Rightarrow> cuda_pool_state" where
  "initial_state n_devices =
     \<lparr>current_device = 0,
      g_cuda_buffer_pool = replicate n_devices (replicate MAX_CUDA_BUFFERS empty_buffer),
      cuda_calls = [], stderr_log = []\<rparr>"

definition set_pool :: "cuda_buffer list \<Rightarrow> nat \<Rightarrow> cuda_pool_state \<Rightarrow> cuda_pool_state" where
  "set_pool pool id' st = st\<lparr>g_cuda_buffer_pool := (g_cuda_buffer_pool st)[id' := pool]\<rparr>"

definition cudaMalloc :: "nat \<Rightarrow> nat \<Rightarrow> cuda_pool_state \<Rightarrow> cuda_pool_state" where
  "cudaMalloc p size' st = st\<lparr>cuda_calls := CudaMalloc p size' # cuda_calls st\<rparr>"

definition cudaFree :: "nat \<Rightarrow> cuda_pool_state \<Rightarrow> cuda_pool_state" where
  "cudaFree p st = st\<lparr>cuda_calls := CudaFree p # cuda_calls st\<rparr>"

definition fprintf_stderr :: "string \<Rightarrow> cuda_pool_state \<Rightarrow> cuda_pool_state" where
  "fprintf_stderr msg st = st\<lparr>stderr_log := msg # stderr_log st\<rparr>"

text \<open>
  The loops \<^verbatim>\<open>for (int i = 0; i < MAX_CUDA_BUFFERS; ++i)\<close> that stop at the first slot
  with a property: the index of that slot, if there is one.
\<close>

fun first_slot :: "(cuda_buffer \<Rightarrow> bool) \<Rightarrow> cuda_buffer list \<Rightarrow> nat option" where
  "first_slot P [] = None"
| "first_slot P (b # bs) = (if P b then Some 0 else map_option Suc (first_slot P bs))"

text \<open>
  \<^verbatim>\<open>size_t min_size_diff_ok = size * 0.05\<close>: the size is converted to \<^verbatim>\<open>double\<close>,
  multiplied by the \<^verbatim>\<open>double\<close> nearest to \<open>0.05\<close>, and the rounded product is converted
  back, which drops its fraction. No step overflows for a \<^verbatim>\<open>size_t\<close>, so the case \<open>None\<close>
  is not reached.
\<close>

definition min_size_diff_ok :: "nat \<Rightarrow> nat" where
  "min_size_diff_ok size' =
     (case do { s \<leftarrow> double (real size'); c \<leftarrow> double (5 / 100); double (s * c) } of
        Some v \<Rightarrow> nat \<lfloor>v\<rfloor>
      | None \<Rightarrow> 0)"

text \<open>
  The first loop of \<^verbatim>\<open>ggml_cuda_pool_malloc\<close>, from slot \<open>i\<close> on, with the variables
  \<^verbatim>\<open>best_fit\<close> (the index of the slot, \<open>None\<close> the null pointer) and \<^verbatim>\<open>min_size_diff\<close>.
  \<open>Some i\<close> without a recursive call is the \<^verbatim>\<open>break\<close>.
\<close>

fun find_best_fit ::
  "nat \<Rightarrow> nat \<Rightarrow> cuda_buffer list \<Rightarrow> nat \<Rightarrow> nat option \<Rightarrow> nat \<Rightarrow> nat option" where
  "find_best_fit size' ok [] i best_fit min_size_diff = best_fit"
| "find_best_fit size' ok (b # bs) i best_fit min_size_diff =
     (if size_bytes b \<ge> size' \<and> ptr b \<noteq> 0 then
        (let size_diff = size_bytes b - size' in
         if size_diff < min_size_diff then
           (if size_diff < ok then Some i
            else find_best_fit size' ok bs (i + 1) (Some i) size_diff)
         else find_best_fit size' ok bs (i + 1) best_fit min_size_diff)
      else find_best_fit size' ok bs (i + 1) best_fit min_size_diff)"

text \<open>
  \<^verbatim>\<open>ggml_cuda_pool_malloc(size, actual_size)\<close>. The argument \<open>dev\<close> is the answer
  \<^verbatim>\<open>cudaMalloc\<close> gives if it is called: \<open>Some p\<close> a pointer, \<open>None\<close> an error, on which
  \<^verbatim>\<open>CUDA_CHECK\<close> ends the process (the result \<open>None\<close>). \<^verbatim>\<open>CUDA_CHECK(cudaGetDevice(&id))\<close>
  fails in the same way when the current device is none of the table. The result is the
  returned pointer, the value written to \<^verbatim>\<open>*actual_size\<close> and the new state.
\<close>

definition ggml_cuda_pool_malloc ::
  "nat \<Rightarrow> nat option \<Rightarrow> cuda_pool_state \<Rightarrow> (nat \<times> nat \<times> cuda_pool_state) option" where
  "ggml_cuda_pool_malloc size' dev st =
     (let id' = current_device st in
      if id' \<ge> length (g_cuda_buffer_pool st) then None
      else
        (let pool = g_cuda_buffer_pool st ! id' in
         case find_best_fit size' (min_size_diff_ok size') pool 0 None SIZE_MAX of
           Some j \<Rightarrow>
             (let b = pool ! j; p = ptr b in
              Some (p, size_bytes b,
                    set_pool (pool[j := b\<lparr>ptr_in_use := p, ptr := 0,
                                           access_count := access_count b + 1\<rparr>]) id' st))
         | None \<Rightarrow>
             (case dev of
                None \<Rightarrow> None
              | Some p \<Rightarrow>
                  (let st1 = cudaMalloc p size' st in
                   case first_slot (\<lambda>b. ptr b = 0 \<and> ptr_in_use b = 0) pool of
                     Some j \<Rightarrow>
                       Some (p, size',
                             set_pool (pool[j := (pool ! j)\<lparr>ptr := 0, ptr_in_use := p,
                                             size_bytes := size', access_count := 1\<rparr>]) id' st1)
                   | None \<Rightarrow> Some (p, size', st1)))))"

text \<open>\<^verbatim>\<open>ggml_cuda_pool_free(ptr, size)\<close>.\<close>

definition ggml_cuda_pool_free :: "nat \<Rightarrow> nat \<Rightarrow> cuda_pool_state \<Rightarrow> cuda_pool_state option" where
  "ggml_cuda_pool_free p size' st =
     (let id' = current_device st in
      if id' \<ge> length (g_cuda_buffer_pool st) then None
      else
        (let pool = g_cuda_buffer_pool st ! id' in
         case first_slot (\<lambda>b. ptr b = 0 \<and> ptr_in_use b = p) pool of
           Some j \<Rightarrow>
             (let b = pool ! j;
                  b1 = b\<lparr>ptr := p, ptr_in_use := 0\<rparr>;
                  b2 = (if size' > 0 then b1\<lparr>size_bytes := size'\<rparr> else b1)
              in Some (set_pool (pool[j := b2\<lparr>access_count := 1\<rparr>]) id' st))
         | None \<Rightarrow>
             Some (cudaFree p (fprintf_stderr ''WARNING (FREE): CUDA BUFFER POOL FULL'' st))))"

text \<open>\<^verbatim>\<open>ggml_cuda_pool_unallocate(ptr)\<close>.\<close>

definition ggml_cuda_pool_unallocate :: "nat \<Rightarrow> cuda_pool_state \<Rightarrow> cuda_pool_state option" where
  "ggml_cuda_pool_unallocate p st =
     (let id' = current_device st in
      if id' \<ge> length (g_cuda_buffer_pool st) then None
      else
        (let pool = g_cuda_buffer_pool st ! id' in
         case first_slot (\<lambda>b. ptr b = p \<or> ptr_in_use b = p) pool of
           Some j \<Rightarrow>
             Some (cudaFree p
                     (set_pool (pool[j := (pool ! j)\<lparr>ptr := 0, ptr_in_use := 0, size_bytes := 0,
                                      access_count := 0\<rparr>]) id' st))
         | None \<Rightarrow> Some (cudaFree p st)))"

text \<open>
  \<^verbatim>\<open>ggml_cuda_pool_purge_buffers_with_access_count(min_access_count, device_id)\<close>: the loop
  over the slots returns the new slots and the pointers it passed to \<^verbatim>\<open>cudaFree\<close>, in
  order; their number is the result \<^verbatim>\<open>total_purged\<close>. Before the first \<^verbatim>\<open>cudaFree\<close> the
  function switches to \<^verbatim>\<open>device_id\<close> and does not switch back.
\<close>

fun purge_slots :: "int \<Rightarrow> cuda_buffer list \<Rightarrow> cuda_buffer list \<times> nat list" where
  "purge_slots min_access_count [] = ([], [])"
| "purge_slots min_access_count (b # bs) =
     (let (bs', freed) = purge_slots min_access_count bs in
      if ptr b \<noteq> 0 \<and> access_count b < min_access_count
        then (b\<lparr>ptr := 0, ptr_in_use := 0, size_bytes := 0, access_count := 0\<rparr> # bs',
              ptr b # freed)
      else (b # bs', freed))"

definition ggml_cuda_pool_purge_buffers_with_access_count ::
  "int \<Rightarrow> nat \<Rightarrow> cuda_pool_state \<Rightarrow> (int \<times> cuda_pool_state) option" where
  "ggml_cuda_pool_purge_buffers_with_access_count min_access_count device_id st =
     (if current_device st \<ge> length (g_cuda_buffer_pool st)
         \<or> device_id \<ge> length (g_cuda_buffer_pool st) then None
      else
        (let (pool', freed) = purge_slots min_access_count (g_cuda_buffer_pool st ! device_id);
             st1 = fold cudaFree freed (set_pool pool' device_id st)
         in Some (int (length freed),
                  if freed \<noteq> [] then st1\<lparr>current_device := device_id\<rparr> else st1)))"

text \<open>\<^verbatim>\<open>ggml_cuda_pool_reset_all_counters(device_id)\<close> and \<^verbatim>\<open>cudaSetDevice(id)\<close>.\<close>

definition ggml_cuda_pool_reset_all_counters :: "nat \<Rightarrow> cuda_pool_state \<Rightarrow> cuda_pool_state option" where
  "ggml_cuda_pool_reset_all_counters device_id st =
     (if device_id \<ge> length (g_cuda_buffer_pool st) then None
      else Some (set_pool (map (\<lambda>b. if ptr b \<noteq> 0 then b\<lparr>access_count := 0\<rparr> else b)
                             (g_cuda_buffer_pool st ! device_id)) device_id st))"

definition cudaSetDevice :: "nat \<Rightarrow> cuda_pool_state \<Rightarrow> cuda_pool_state option" where
  "cudaSetDevice id' st =
     (if id' \<ge> length (g_cuda_buffer_pool st) then None else Some (st\<lparr>current_device := id'\<rparr>))"

text \<open>
  Sequences of calls. \<open>Malloc size' dev\<close> carries the answer of the device allocator, as
  above.
\<close>

datatype pool_op =
    Malloc nat "nat option"
  | Free nat nat
  | Unallocate nat
  | Purge int nat
  | ResetCounters nat
  | SetDevice nat

fun apply_op :: "pool_op \<Rightarrow> cuda_pool_state \<Rightarrow> cuda_pool_state option" where
  "apply_op (Malloc size' dev) st = map_option (\<lambda>(p, a, st'). st') (ggml_cuda_pool_malloc size' dev st)"
| "apply_op (Free p size') st = ggml_cuda_pool_free p size' st"
| "apply_op (Unallocate p) st = ggml_cuda_pool_unallocate p st"
| "apply_op (Purge m d) st = map_option snd (ggml_cuda_pool_purge_buffers_with_access_count m d st)"
| "apply_op (ResetCounters d) st = ggml_cuda_pool_reset_all_counters d st"
| "apply_op (SetDevice d) st = cudaSetDevice d st"

fun run_ops :: "pool_op list \<Rightarrow> cuda_pool_state \<Rightarrow> cuda_pool_state option" where
  "run_ops [] st = Some st"
| "run_ops (x # xs) st = (case apply_op x st of None \<Rightarrow> None | Some st' \<Rightarrow> run_ops xs st')"

text \<open>
  The device memory that is allocated after a log of raw calls, a slot that can serve a
  request and what it wastes, and the three states of a slot.
\<close>

primrec is_live :: "cuda_call list \<Rightarrow> nat \<Rightarrow> bool" where
  "is_live [] p = False"
| "is_live (c # cs) p =
     (case c of CudaMalloc q s \<Rightarrow> q = p \<or> is_live cs p | CudaFree q \<Rightarrow> q \<noteq> p \<and> is_live cs p)"

definition fits :: "nat \<Rightarrow> cuda_buffer \<Rightarrow> bool" where
  "fits size' b = (size' \<le> size_bytes b \<and> ptr b \<noteq> 0)"

definition overhead :: "nat \<Rightarrow> cuda_buffer \<Rightarrow> nat" where
  "overhead size' b = size_bytes b - size'"



definition holds_ptr :: "nat \<Rightarrow> cuda_buffer \<Rightarrow> bool" where
  "holds_ptr p b = (ptr b = p \<or> ptr_in_use b = p)"

text \<open>
  The way the pool is meant to be called: the device allocator answers with a pointer that
  is not null and not allocated at that moment, and \<^verbatim>\<open>ggml_cuda_pool_free\<close> and
  \<^verbatim>\<open>ggml_cuda_pool_unallocate\<close> get the null pointer, a pointer the pool of the current
  device holds (for \<^verbatim>\<open>free\<close>: as in use), or a pointer no slot of any device holds (one
  that was allocated while the table was full).
\<close>

fun op_ok :: "cuda_pool_state \<Rightarrow> pool_op \<Rightarrow> bool" where
  "op_ok st (Malloc size' dev) =
     (case dev of None \<Rightarrow> True | Some p \<Rightarrow> p \<noteq> 0 \<and> \<not> is_live (cuda_calls st) p)"
| "op_ok st (Free p size') =
     (p = 0
      \<or> list_ex (\<lambda>b. ptr b = 0 \<and> ptr_in_use b = p) (g_cuda_buffer_pool st ! current_device st)
      \<or> \<not> list_ex (holds_ptr p) (concat (g_cuda_buffer_pool st)))"
| "op_ok st (Unallocate p) =
     (p = 0
      \<or> list_ex (holds_ptr p) (g_cuda_buffer_pool st ! current_device st)
      \<or> \<not> list_ex (holds_ptr p) (concat (g_cuda_buffer_pool st)))"
| "op_ok st (Purge m d) = True"
| "op_ok st (ResetCounters d) = True"
| "op_ok st (SetDevice d) = True"

fun run_ok :: "pool_op list \<Rightarrow> cuda_pool_state \<Rightarrow> bool" where
  "run_ok [] st = True"
| "run_ok (x # xs) st =
     (op_ok st x \<and> (case apply_op x st of None \<Rightarrow> True | Some st' \<Rightarrow> run_ok xs st'))"

text \<open>The slots the operations write, and the invariants of the table used in the proofs.\<close>

definition reuse_slot :: "cuda_buffer \<Rightarrow> cuda_buffer" where
  "reuse_slot b = b\<lparr>ptr_in_use := ptr b, ptr := 0, access_count := access_count b + 1\<rparr>"

definition fresh_slot :: "nat \<Rightarrow> nat \<Rightarrow> cuda_buffer \<Rightarrow> cuda_buffer" where
  "fresh_slot p size' b = b\<lparr>ptr := 0, ptr_in_use := p, size_bytes := size', access_count := 1\<rparr>"

definition freed_slot :: "nat \<Rightarrow> nat \<Rightarrow> cuda_buffer \<Rightarrow> cuda_buffer" where
  "freed_slot p size' b =
     b\<lparr>ptr := p, ptr_in_use := 0,
       size_bytes := (if size' > 0 then size' else size_bytes b), access_count := 1\<rparr>"

definition cleared_slot :: "cuda_buffer \<Rightarrow> cuda_buffer" where
  "cleared_slot b = b\<lparr>ptr := 0, ptr_in_use := 0, size_bytes := 0, access_count := 0\<rparr>"

definition slot_ptrs :: "cuda_buffer \<Rightarrow> nat set" where
  "slot_ptrs b = {ptr b, ptr_in_use b} - {0}"



definition same_shape :: "cuda_buffer list list \<Rightarrow> cuda_buffer list list \<Rightarrow> bool" where
  "same_shape P' P = (length P' = length P \<and> (\<forall>d<length P. length (P' ! d) = length (P ! d)))"



definition tracked_slots :: "cuda_buffer list \<Rightarrow> nat" where
  "tracked_slots pool = length (filter (\<lambda>b. ptr b \<noteq> 0 \<or> ptr_in_use b \<noteq> 0) pool)"

text \<open>
  The states of scenario B on one device: after the allocation of 64 KiB, after the free
  and after the allocation of 60 KiB.
\<close>

definition scenario_st1 :: "nat \<Rightarrow> cuda_pool_state" where
  "scenario_st1 p =
     \<lparr>current_device = 0,
      g_cuda_buffer_pool =
        [\<lparr>ptr = 0, ptr_in_use = p, size_bytes = 65536, access_count = 1, associated_tensor = 0\<rparr>
           # replicate 255 empty_buffer],
      cuda_calls = [CudaMalloc p 65536], stderr_log = []\<rparr>"

definition scenario_st2 :: "nat \<Rightarrow> cuda_pool_state" where
  "scenario_st2 p =
     \<lparr>current_device = 0,
      g_cuda_buffer_pool =
        [\<lparr>ptr = p, ptr_in_use = 0, size_bytes = 65536, access_count = 1, associated_tensor = 0\<rparr>
           # replicate 255 empty_buffer],
      cuda_calls = [CudaMalloc p 65536], stderr_log = []\<rparr>"

definition scenario_st3 :: "nat \<Rightarrow> cuda_pool_state" where
  "scenario_st3 p =
     \<lparr>current_device = 0,
      g_cuda_buffer_pool =
        [\<lparr>ptr = 0, ptr_in_use = p, size_bytes = 65536, access_count = 2, associated_tensor = 0\<rparr>
           # replicate 255 empty_buffer],
      cuda_calls = [CudaMalloc p 65536], stderr_log = []\<rparr>"

text \<open>
  A table without an empty slot: one device, every slot in use with a buffer of 16 bytes,
  as after 256 allocations of 16 bytes that returned the pointers 1 to 256.
\<close>

definition full_state :: cuda_pool_state where
  "full_state =
     \<lparr>current_device = 0,
      g_cuda_buffer_pool =
        [map (\<lambda>i. \<lparr>ptr = 0, ptr_in_use = Suc i, size_bytes = 16, access_count = 1,
                    associated_tensor = 0\<rparr>) [0..<MAX_CUDA_BUFFERS]],
      cuda_calls = map (\<lambda>i. CudaMalloc (Suc i) 16) (rev [0..<MAX_CUDA_BUFFERS]),
      stderr_log = []\<rparr>"










section \<open>The choice of the compute function in \<open>ggml_cuda_op\<close>\<close>

text \<open>
  The functions a \<^verbatim>\<open>ggml_cuda_op_t\<close> pointer is set to, and a failed \<^verbatim>\<open>GGML_ASSERT\<close>,
  which ends the process, with the text of the asserted condition.
\<close>

datatype ggml_cuda_op_t =
    ggml_cuda_op_add | ggml_cuda_op_mul | ggml_cuda_op_gelu | ggml_cuda_op_silu
  | ggml_cuda_op_norm | ggml_cuda_op_rms_norm | ggml_cuda_op_mul_mat_q
  | ggml_cuda_op_mul_mat_cublas | ggml_cuda_op_mul_mat_cublas_f16_f32_wrapper
  | ggml_cuda_op_mul_mat_cublas_f8e4_f32_wrapper | ggml_cuda_op_mul_mat_vec
  | ggml_cuda_op_scale | ggml_cuda_op_diag_mask_inf | ggml_cuda_op_soft_max | ggml_cuda_op_rope

datatype error = GGML_ASSERT string

text \<open>
  The local variables of \<^verbatim>\<open>ggml_cuda_op\<close> that describe what the compute function needs:
  four of them are parameters, the others start as \<open>0\<close> and \<open>false\<close>.
\<close>

record op_requirements =
  src0_needs_f32 :: bool
  flatten_rows :: bool
  src0_needs_f16 :: bool
  src0_needs_f8e4 :: bool
  src0_needs_ddq :: bool
  min_capability_major :: int
  min_capability_minor :: int

text \<open>
  What the function reads of its environment: the globals \<^verbatim>\<open>g_device_count\<close>,
  \<^verbatim>\<open>g_main_device\<close>, \<^verbatim>\<open>g_tensor_split\<close> and the compute capability
  \<^verbatim>\<open>device_props[id].major\<close>, \<^verbatim>\<open>.minor\<close> of each device; of its arguments the name and
  the compute function, the backend and the number of rows of \<^verbatim>\<open>src0\<close>, and of the
  destination's meta data whether \<^verbatim>\<open>ggml_cuda_broadcast_ilv\<close> is set and whether
  \<^verbatim>\<open>cuda_choice_blas\<close> is \<^verbatim>\<open>CUDA_CHOICE_BLAS_ILBC\<close>.
\<close>

record gpu_status =
  g_device_count :: nat
  g_main_device :: nat
  g_tensor_split :: "nat \<Rightarrow> real"
  props_major :: "nat \<Rightarrow> int"
  props_minor :: "nat \<Rightarrow> int"

record op_call =
  op_name :: string
  op_fn :: ggml_cuda_op_t
  src0_backend :: ggml_backend
  nrows0 :: int
  ggml_cuda_broadcast_ilv :: bool
  choice_blas_is_ilbc :: bool

text \<open>The chain of \<^verbatim>\<open>strcmp\<close> tests on \<^verbatim>\<open>op_name\<close> at the start of \<^verbatim>\<open>ggml_cuda_op\<close>.\<close>

definition choose_requirements :: "op_call \<Rightarrow> op_requirements \<Rightarrow> op_requirements" where
  "choose_requirements c r =
     (if op_name c = ''ggml_cuda_mul_mat_cublas'' then
        r\<lparr>src0_needs_f32 := True, flatten_rows := False, src0_needs_f16 := False,
          src0_needs_f8e4 := False\<rparr>
      else if op_name c = ''ggml_cuda_mul_mat_cublas_f16'' then
        r\<lparr>min_capability_major := 6, min_capability_minor := 1,
          src0_needs_f32 := False, flatten_rows := False, src0_needs_f16 := True,
          src0_needs_f8e4 := False\<rparr>
      else if op_name c = ''ggml_cuda_mul_mat_cublas_f8e4'' then
        r\<lparr>min_capability_major := 8, min_capability_minor := 9,
          src0_needs_f32 := False, flatten_rows := False, src0_needs_f16 := False,
          src0_needs_f8e4 := True\<rparr>
      else if op_name c = ''ggml_cuda_mul_mat_q'' then
        (let r' = r\<lparr>min_capability_major := 6, min_capability_minor := 1,
                     src0_needs_f32 := False, flatten_rows := False, src0_needs_f16 := False,
                     src0_needs_f8e4 := False, src0_needs_ddq := True\<rparr>
         in if choice_blas_is_ilbc c then r'\<lparr>src0_needs_f32 := True, src0_needs_ddq := False\<rparr>
            else r')
      else r)"

text \<open>
  \<^verbatim>\<open>bool split\<close>: the tensor is split, or the operation needs a capability, is not a
  broadcast, \<^verbatim>\<open>src0\<close> is not on the main device and there is more than one device.
\<close>

definition is_split :: "gpu_status \<Rightarrow> op_call \<Rightarrow> op_requirements \<Rightarrow> bool" where
  "is_split g c r =
     (src0_backend c = GGML_BACKEND_GPU_SPLIT
      \<or> (min_capability_major r \<noteq> 0 \<and> \<not> ggml_cuda_broadcast_ilv c
          \<and> src0_backend c \<noteq> GGML_BACKEND_GPU \<and> g_device_count g > 1))"

text \<open>The test at the head of the device loop: the device lacks the capability asked for.\<close>

definition lacks_capability :: "gpu_status \<Rightarrow> op_requirements \<Rightarrow> nat \<Rightarrow> bool" where
  "lacks_capability g r id' =
     (min_capability_major r \<noteq> 0
      \<and> \<not> (props_major g id' > min_capability_major r
           \<or> (props_major g id' = min_capability_major r
               \<and> props_minor g id' \<ge> min_capability_minor r)))"

text \<open>
  The device loop of \<^verbatim>\<open>ggml_cuda_op\<close>, for the devices \<open>ids\<close> still to visit, with the
  current values of \<^verbatim>\<open>op\<close> and of the requirement variables. Of the loop body the model
  keeps the statements that decide whether a device takes part and which compute function
  it calls: the \<^verbatim>\<open>continue\<close> for a device other than the main one when the operation is
  not split, the capability test with its two assertions and its assignment to \<^verbatim>\<open>op\<close>,
  and the \<^verbatim>\<open>continue\<close> for an empty row window. The staging of buffers, the copies and
  the calls of \<^verbatim>\<open>op\<close> themselves are not modelled: the result lists, in order, the devices
  that reach them, each with the function \<^verbatim>\<open>op\<close> points to at that moment.
\<close>

fun device_loop ::
  "gpu_status \<Rightarrow> op_call \<Rightarrow> bool \<Rightarrow> nat list \<Rightarrow> ggml_cuda_op_t \<times> op_requirements \<Rightarrow>
     error + (nat \<times> ggml_cuda_op_t) list" where
  "device_loop g c split [] (f, r) = Inr []"
| "device_loop g c split (id' # ids) (f, r) =
     (if \<not> split \<and> id' \<noteq> g_main_device g then device_loop g c split ids (f, r)
      else
        (case
           (if lacks_capability g r id' then
              (if id' = g_main_device g then Inl (GGML_ASSERT ''id != g_main_device'')
               else if op_name c = ''ggml_cuda_mul_mat_cublas_f8e4'' then
                 Inr (ggml_cuda_op_mul_mat_cublas_f16_f32_wrapper,
                      r\<lparr>src0_needs_f16 := True, src0_needs_f8e4 := False\<rparr>)
               else Inl (GGML_ASSERT ''false''))
            else Inr (f, r))
         of
           Inl e \<Rightarrow> Inl e
         | Inr (f', r') \<Rightarrow>
             (let (row_low, row_high) =
                    (if split then
                       (case ggml_cuda_tensor_split_custom (g_tensor_split g) (g_device_count g)
                               (nrows0 c) id' 0 of (lo, hi, pad) \<Rightarrow> (lo, hi))
                     else (0, nrows0 c))
              in if row_low = row_high then device_loop g c split ids (f', r')
                 else (case device_loop g c split ids (f', r') of
                         Inl e \<Rightarrow> Inl e
                       | Inr rest \<Rightarrow> Inr ((id', f') # rest)))))"

text \<open>
  \<^verbatim>\<open>ggml_cuda_op\<close> up to the end of the device loop: the requirements are chosen, the
  assertion on them is checked, and the devices \<open>0, \<dots>, g_device_count - 1\<close> are visited.
\<close>

definition ggml_cuda_op_devices ::
  "gpu_status \<Rightarrow> op_call \<Rightarrow> bool \<Rightarrow> bool \<Rightarrow> bool \<Rightarrow> bool \<Rightarrow> error + (nat \<times> ggml_cuda_op_t) list" where
  "ggml_cuda_op_devices g c needs_f32 flatten needs_f16 needs_f8e4 =
     (let r = choose_requirements c
                \<lparr>src0_needs_f32 = needs_f32, flatten_rows = flatten, src0_needs_f16 = needs_f16,
                 src0_needs_f8e4 = needs_f8e4, src0_needs_ddq = False,
                 min_capability_major = 0, min_capability_minor = 0\<rparr>
      in if \<not> (of_bool (src0_needs_f32 r) + of_bool (src0_needs_f16 r)
                  + of_bool (src0_needs_f8e4 r) \<le> (1::int))
           then Inl (GGML_ASSERT ''(src0_needs_f32 + src0_needs_f16 + src0_needs_f8e4) <= 1'')
         else device_loop g c (is_split g c r) [0..<g_device_count g] (op_fn c, r))"

text \<open>
  Two devices that split the rows in halves: device 0, the main device, of compute
  capability 8.9, device 1 of compute capability 8.6 (\<open>two_gpus\<close>) or 5.2
  (\<open>old_gpus\<close>). And the calls that
  \<^verbatim>\<open>ggml_cuda_mul_mat\<close> makes for the 8-bit-exponent cuBLAS multiply and for the quantized
  kernel on a split weight tensor of 1024 rows.
\<close>

definition two_gpus :: gpu_status where
  "two_gpus = \<lparr>g_device_count = 2, g_main_device = 0,
                g_tensor_split = (\<lambda>i. if i = 1 then 1/2 else 0),
                props_major = (\<lambda>i. 8), props_minor = (\<lambda>i. if i = 0 then 9 else 6)\<rparr>"

definition old_gpus :: gpu_status where
  "old_gpus = two_gpus\<lparr>props_major := (\<lambda>i. if i = 0 then 8 else 5),
                        props_minor := (\<lambda>i. if i = 0 then 9 else 2)\<rparr>"

definition call_f8e4 :: op_call where
  "call_f8e4 = \<lparr>op_name = ''ggml_cuda_mul_mat_cublas_f8e4'',
                 op_fn = ggml_cuda_op_mul_mat_cublas_f8e4_f32_wrapper,
                 src0_backend = GGML_BACKEND_GPU_SPLIT, nrows0 = 1024,
                 ggml_cuda_broadcast_ilv = False, choice_blas_is_ilbc = False\<rparr>"

definition call_q :: op_call where
  "call_q = \<lparr>op_name = ''ggml_cuda_mul_mat_q'', op_fn = ggml_cuda_op_mul_mat_q,
              src0_backend = GGML_BACKEND_GPU_SPLIT, nrows0 = 1024,
              ggml_cuda_broadcast_ilv = False, choice_blas_is_ilbc = False\<rparr>"

definition has_capability :: "gpu_status \<Rightarrow> int \<Rightarrow> int \<Rightarrow> nat \<Rightarrow> bool" where
  "has_capability g major minor id' =
     (props_major g id' > major \<or> (props_major g id' = major \<and> props_minor g id' \<ge> minor))"

section \<open>Quantization to 8 bits\<close>

unbundle bit_operations_syntax

text \<open>
  The kernels compute in the formats \<^verbatim>\<open>float\<close>, \<open>round_to_format 24 (-126) 127\<close>, and
  \<^verbatim>\<open>half\<close>, \<open>round_to_format 11 (-14) 15\<close>. A conversion to \<^verbatim>\<open>int8_t\<close> of a value
  outside its range, which C leaves undefined, has the result \<open>None\<close>, like an operation
  whose result is not finite.
\<close>

definition float32 :: "real \<Rightarrow> real option" where
  "float32 = round_to_format 24 (-126) 127"

definition float2half :: "real \<Rightarrow> real option" where
  "float2half = round_to_format 11 (-14) 15"

text \<open>The operators \<^verbatim>\<open>/\<close>, \<^verbatim>\<open>*\<close> and \<^verbatim>\<open>+\<close> on \<^verbatim>\<open>float\<close>, correctly rounded.\<close>

definition fdiv :: "real \<Rightarrow> real \<Rightarrow> real option" where
  "fdiv a b = (if b = 0 then None else float32 (a / b))"

definition fmul :: "real \<Rightarrow> real \<Rightarrow> real option" where
  "fmul a b = float32 (a * b)"

definition fadd :: "real option \<Rightarrow> real option \<Rightarrow> real option" where
  "fadd a b = do { u \<leftarrow> a; v \<leftarrow> b; float32 (u + v) }"

definition fabsf :: "real \<Rightarrow> real" where
  "fabsf x = \<bar>x\<bar>"

definition fmaxf :: "real \<Rightarrow> real \<Rightarrow> real" where
  "fmaxf a b = max a b"

text \<open>\<^verbatim>\<open>roundf\<close> rounds to the nearest integer, halfway cases away from zero.\<close>

definition roundf :: "real \<Rightarrow> real" where
  "roundf x = (if 0 \<le> x then of_int \<lfloor>x + 1/2\<rfloor> else - of_int \<lfloor>- x + 1/2\<rfloor>)"

text \<open>The conversion of a \<^verbatim>\<open>float\<close> to \<^verbatim>\<open>int8_t\<close>: truncation toward zero.\<close>

definition int8_t :: "real \<Rightarrow> int option" where
  "int8_t v =
     (let n = (if 0 \<le> v then \<lfloor>v\<rfloor> else \<lceil>v\<rceil>)
      in if - 128 \<le> n \<and> n \<le> 127 then Some n else None)"

text \<open>
  The blocks: \<^verbatim>\<open>block_q8_0\<close> has the fields \<^verbatim>\<open>half d\<close> and \<^verbatim>\<open>int8_t qs[32]\<close>,
  \<^verbatim>\<open>block_q8_1\<close> the fields \<^verbatim>\<open>half2 ds\<close> (\<^verbatim>\<open>ds.x\<close> the scale, \<^verbatim>\<open>ds.y\<close> the sum) and
  \<^verbatim>\<open>int8_t qs[32]\<close>.
\<close>

definition QK8_0 :: nat where
  "QK8_0 = 32"

definition QK8_1 :: nat where
  "QK8_1 = 32"

record block_q8_0 =
  q8_0_d :: real
  q8_0_qs :: "int list"

record block_q8_1 =
  q8_1_ds :: "real \<times> real"
  q8_1_qs :: "int list"

text \<open>
  The kernels are modelled for one warp: the 32 threads with consecutive \<^verbatim>\<open>ix\<close> that write
  one block (\<^verbatim>\<open>kx_padded\<close> is a multiple of 32 and the thread blocks have 256 threads, so
  the threads of a warp share \<^verbatim>\<open>ib\<close> and have \<^verbatim>\<open>iqs\<close> equal to their lane). A local
  variable of the kernel is the list of its 32 values, one for each lane.
  \<^verbatim>\<open>__shfl_xor_sync(0xffffffff, v, mask, 32)\<close> gives each lane the value of the lane whose
  number is its own \<open>XOR mask\<close>.
\<close>

definition shfl_xor_sync :: "'a list \<Rightarrow> nat \<Rightarrow> 'a list" where
  "shfl_xor_sync v mask' = map (\<lambda>lane. v ! (lane XOR mask')) [0..<32]"

text \<open>
  The loop \<^verbatim>\<open>for (int mask = 16; mask > 0; mask >>= 1)\<close> of \<^verbatim>\<open>quantize_q8_0\<close>, and
  the one of \<^verbatim>\<open>quantize_q8_1\<close>, which adds up the values as well.
\<close>

function amax_loop :: "nat \<Rightarrow> real list \<Rightarrow> real list" where
  "amax_loop mask' amax =
     (if mask' > 0
      then amax_loop (mask' div 2) (map2 fmaxf amax (shfl_xor_sync amax mask'))
      else amax)"
  by pat_completeness auto

termination
  by (relation "measure fst") auto

function amax_sum_loop ::
  "nat \<Rightarrow> real list \<times> real option list \<Rightarrow> real list \<times> real option list" where
  "amax_sum_loop mask' (amax, sumf) =
     (if mask' > 0
      then amax_sum_loop (mask' div 2)
             (map2 fmaxf amax (shfl_xor_sync amax mask'),
              map2 fadd sumf (shfl_xor_sync sumf mask'))
      else (amax, sumf))"
  by pat_completeness auto

termination
  by (relation "measure fst") auto

text \<open>
  What one thread computes from its value \<^verbatim>\<open>xi\<close> and its \<^verbatim>\<open>amax\<close> after the loop: the
  scale \<^verbatim>\<open>d = amax / 127\<close> and the code
  \<^verbatim>\<open>q = amax == 0.0f ? 0 : roundf(xi / d)\<close>.
\<close>

definition scale_and_code :: "real \<Rightarrow> real \<Rightarrow> (real \<times> int) option" where
  "scale_and_code xi amax =
     do {
       d \<leftarrow> fdiv amax 127;
       q \<leftarrow> (if amax = 0 then Some 0 else do { t \<leftarrow> fdiv xi d; int8_t (roundf t) });
       Some (d, q)
     }"

text \<open>
  \<^verbatim>\<open>quantize_q8_0\<close> for one warp, from the 32 values \<^verbatim>\<open>xi\<close> its threads have loaded
  (\<open>0\<close> in the padding): every thread stores its code, the thread with \<^verbatim>\<open>iqs == 0\<close>
  stores the scale, which the assignment converts to \<^verbatim>\<open>half\<close>.
\<close>

definition quantize_q8_0 :: "real list \<Rightarrow> block_q8_0 option" where
  "quantize_q8_0 xi =
     do {
       let amax = amax_loop 16 (map fabsf xi);
       dq \<leftarrow> those (map2 scale_and_code xi amax);
       d \<leftarrow> float2half (fst (dq ! 0));
       Some \<lparr>q8_0_d = d, q8_0_qs = map snd dq\<rparr>
     }"

definition quantize_q8_1 :: "real list \<Rightarrow> block_q8_1 option" where
  "quantize_q8_1 xi =
     do {
       let (amax, sumf) = amax_sum_loop 16 (map fabsf xi, map Some xi);
       dq \<leftarrow> those (map2 scale_and_code xi amax);
       d \<leftarrow> float2half (fst (dq ! 0));
       s \<leftarrow> sumf ! 0;
       s' \<leftarrow> float2half s;
       Some \<lparr>q8_1_ds = (d, s'), q8_1_qs = map snd dq\<rparr>
     }"

text \<open>
  \<^verbatim>\<open>dequantize_q8_0\<close> without \<^verbatim>\<open>GGML_CUDA_F16\<close> (the macro is commented out):
  \<^verbatim>\<open>dfloat\<close> is \<^verbatim>\<open>float\<close>, the two codes at \<^verbatim>\<open>iqs\<close> and \<^verbatim>\<open>iqs + 1\<close> of block \<^verbatim>\<open>ib\<close> are
  converted to \<^verbatim>\<open>float\<close> and multiplied by the scale. A read outside the blocks or
  outside the codes is \<open>None\<close>.
\<close>

definition dequantize_q8_0 :: "block_q8_0 list \<Rightarrow> nat \<Rightarrow> nat \<Rightarrow> (real \<times> real) option" where
  "dequantize_q8_0 x ib iqs =
     (if ib < length x \<and> iqs + 1 < length (q8_0_qs (x ! ib)) then
        do {
          let d = q8_0_d (x ! ib);
          vx \<leftarrow> fmul (of_int (q8_0_qs (x ! ib) ! (iqs + 0))) d;
          vy \<leftarrow> fmul (of_int (q8_0_qs (x ! ib) ! (iqs + 1))) d;
          Some (vx, vy)
        }
      else None)"

text \<open>
  One round of the loop over \<^verbatim>\<open>mask\<close>, and the largest absolute value of a block, which
  every lane holds after the loop.
\<close>

definition fmaxf_round :: "real list \<Rightarrow> nat \<Rightarrow> real list" where
  "fmaxf_round amax mask' = map2 fmaxf amax (shfl_xor_sync amax mask')"

definition block_amax :: "real list \<Rightarrow> real" where
  "block_amax xi = Max (set (map fabsf xi))"

text \<open>
  \<open>covers a C s\<close>: every lane \<open>i\<close> of \<open>s\<close> holds at least the value that the lanes
  \<open>i XOR c\<close> of \<open>a\<close> hold, for the \<open>c\<close> in \<open>C\<close>.
\<close>

definition covers :: "real list \<Rightarrow> nat set \<Rightarrow> real list \<Rightarrow> bool" where
  "covers a C s = (\<forall>i<32. \<forall>c\<in>C. c < 32 \<and> a ! (i XOR c) \<le> s ! i)"

text \<open>
  A block of two non-zero values, both numbers of the format \<^verbatim>\<open>float\<close>: the largest is
  \<open>127 * (1 + 3/4096)\<close>, so that the scale is \<open>1 + 3/4096\<close>, which \<^verbatim>\<open>half\<close> has not:
  its neighbours there are \<open>1\<close> and \<open>1 + 4/4096\<close>. The other is \<open>125.5\<close> times the scale.
\<close>

definition block_c1 :: "real list" where
  "block_c1 = [520573 / 4096, 1028849 / 8192] @ replicate 30 0"

section \<open>The order of the stream commands of \<open>ggml_cuda_op\<close>\<close>




text \<open>
  What the loops read of the tensors besides the fields of \<open>op_call\<close>: \<^verbatim>\<open>ne01\<close>,
  \<^verbatim>\<open>ne02\<close>, \<^verbatim>\<open>ne03\<close> of \<^verbatim>\<open>src0\<close>, the product \<^verbatim>\<open>nr1 = ne11 * ne12 * ne13\<close> and the
  backend of \<^verbatim>\<open>dst\<close>. And the four sizes that the calls of \<^verbatim>\<open>ggml_cuda_pool_malloc\<close> for
  a device store in \<^verbatim>\<open>src0_asize_q[id]\<close>, \<^verbatim>\<open>src0_asizef[id]\<close>, \<^verbatim>\<open>src1_asizef[id]\<close> and
  \<^verbatim>\<open>dst_asizef[id]\<close>, \<open>0\<close> for a buffer that is not taken from the pool.
\<close>

record op_loops =
  ne01 :: int
  ne02 :: int
  ne03 :: int
  nr1 :: int
  dst_backend :: ggml_backend














text \<open>
  A weight matrix of 1024 rows in one plane, a destination on the host or on the main
  device, and destination buffers of 2048 bytes from the pool on every device.
\<close>

definition loops_host :: op_loops where
  "loops_host = \<lparr>ne01 = 1024, ne02 = 1, ne03 = 1, nr1 = 1, dst_backend = GGML_BACKEND_CPU\<rparr>"

definition loops_gpu :: op_loops where
  "loops_gpu = loops_host\<lparr>dst_backend := GGML_BACKEND_GPU\<rparr>"


section \<open>Properties of the rounding\<close>

lemma round_ties_even_error: "\<bar>of_int (round_ties_even y) - y\<bar> \<le> 1/2"
proof -
  have "of_int \<lfloor>y\<rfloor> \<le> y" "y < of_int \<lfloor>y\<rfloor> + 1"
    by linarith+
  then show ?thesis
    unfolding round_ties_even_def Let_def by (simp add: abs_if) linarith
qed

lemma floor_log2_bracket:
  assumes "x \<noteq> 0"
  shows "2 powr of_int \<lfloor>log 2 \<bar>x\<bar>\<rfloor> \<le> \<bar>x\<bar>" "\<bar>x\<bar> < 2 powr of_int (\<lfloor>log 2 \<bar>x\<bar>\<rfloor> + 1)"
  using floor_log_eq_powr_iff [of "\<bar>x\<bar>" 2 "\<lfloor>log 2 \<bar>x\<bar>\<rfloor>"] assms by simp_all

lemma ulp_exponent_bound:
  assumes "x \<noteq> 0"
  shows "2 powr of_int (ulp_exponent p emin x)
           \<le> max \<bar>x\<bar> (2 powr of_int emin) * 2 powr (1 - real p)"
proof -
  let ?L = "\<lfloor>log 2 \<bar>x\<bar>\<rfloor>"
  have "real_of_int (ulp_exponent p emin x) = of_int (max ?L emin) + (1 - real p)"
    by (simp add: ulp_exponent_def)
  then have "2 powr of_int (ulp_exponent p emin x)
          = 2 powr of_int (max ?L emin) * 2 powr (1 - real p)"
    by (simp only: powr_add)
  moreover have "2 powr real_of_int (max ?L emin)
                   = max (2 powr of_int ?L) (2 powr of_int emin)"
    by (simp add: max_def)
  moreover have "max (2 powr of_int ?L) (2 powr of_int emin) \<le> max \<bar>x\<bar> (2 powr of_int emin)"
    using floor_log2_bracket(1) [OF assms] by (intro max.mono) simp_all
  ultimately show ?thesis
    by (simp add: mult_right_mono)
qed

lemma round_to_format_value:
  "\<exists>y::real. \<bar>y - x\<bar> \<le> max \<bar>x\<bar> (2 powr of_int emin) * 2 powr (- real p)
       \<and> round_to_format p emin emax x
             = (if \<bar>y\<bar> < 2 powr of_int (emax + 1) then Some y else None)"
proof (cases "x = 0")
  case True
  then show ?thesis
    by (intro exI [of _ 0]) (simp add: round_to_format_def)
next
  case False
  define e where "e = ulp_exponent p emin x"
  define y :: real where "y = of_int (round_ties_even (x / 2 powr of_int e)) * 2 powr of_int e"
  have "y - x = (of_int (round_ties_even (x / 2 powr of_int e)) - x / 2 powr of_int e)
                  * 2 powr of_int e"
    by (simp add: y_def algebra_simps)
  then have "\<bar>y - x\<bar> = \<bar>of_int (round_ties_even (x / 2 powr of_int e)) - x / 2 powr of_int e\<bar>
                  * 2 powr of_int e"
    by (simp add: abs_mult)
  also have "\<dots> \<le> 1/2 * 2 powr of_int e"
    by (intro mult_right_mono round_ties_even_error) simp
  also have "\<dots> \<le> 1/2 * (max \<bar>x\<bar> (2 powr of_int emin) * 2 powr (1 - real p))"
    using ulp_exponent_bound [OF False, of p emin] by (simp add: e_def)
  also have "\<dots> = max \<bar>x\<bar> (2 powr of_int emin) * 2 powr (- real p)"
    by (simp add: powr_diff powr_minus field_simps)
  finally have "\<bar>y - x\<bar> \<le> max \<bar>x\<bar> (2 powr of_int emin) * 2 powr (- real p)" .
  moreover have "round_to_format p emin emax x
             = (if \<bar>y\<bar> < 2 powr of_int (emax + 1) then Some y else None)"
    using False by (simp add: round_to_format_def Let_def y_def e_def)
  ultimately show ?thesis by blast
qed

lemma round_to_format_error:
  assumes "round_to_format p emin emax x = Some y"
  shows "\<bar>y - x\<bar> \<le> max \<bar>x\<bar> (2 powr of_int emin) * 2 powr (- real p)"
  using round_to_format_value [of x emin p emax] assms
  by (auto split: if_splits)

lemma round_to_format_Some:
  assumes "\<bar>x\<bar> + max \<bar>x\<bar> (2 powr of_int emin) * 2 powr (- real p) < 2 powr of_int (emax + 1)"
  shows "\<exists>y. round_to_format p emin emax x = Some y"
proof -
  from round_to_format_value [of x emin p emax] obtain y
    where y: "\<bar>y - x\<bar> \<le> max \<bar>x\<bar> (2 powr of_int emin) * 2 powr (- real p)"
      and r: "round_to_format p emin emax x
             = (if \<bar>y\<bar> < 2 powr of_int (emax + 1) then Some y else None)"
    by blast
  have "\<bar>y\<bar> \<le> \<bar>x\<bar> + \<bar>y - x\<bar>" by simp
  with y assms have "\<bar>y\<bar> < 2 powr of_int (emax + 1)" by linarith
  with r show ?thesis by simp
qed

lemma round_to_format_eval:
  assumes "2 powr of_int k \<le> \<bar>x\<bar>" "\<bar>x\<bar> < 2 powr of_int (k + 1)"
  shows "round_to_format p emin emax x =
           (let e = max k emin - (int p - 1);
                y = of_int (round_ties_even (x / 2 powr of_int e)) * 2 powr of_int e
            in if \<bar>y\<bar> < 2 powr of_int (emax + 1) then Some y else None)"
proof -
  have x: "x \<noteq> 0"
    using assms(1) by (smt (verit) powr_gt_zero)
  then have "\<lfloor>log 2 \<bar>x\<bar>\<rfloor> = k"
    using floor_log_eq_powr_iff [of "\<bar>x\<bar>" 2 k] assms by simp
  then show ?thesis
    using x by (simp add: round_to_format_def ulp_exponent_def Let_def)
qed

subsection \<open>The format \<^verbatim>\<open>double\<close>\<close>

lemma round_ties_even_of_int: "round_ties_even (of_int n) = n"
  by (simp add: round_ties_even_def)

lemma round_ties_even_ge: "of_int N \<le> y \<Longrightarrow> N \<le> round_ties_even y"
proof -
  assume "of_int N \<le> y"
  then have "N \<le> \<lfloor>y\<rfloor>" by linarith
  then show ?thesis
    unfolding round_ties_even_def Let_def by simp
qed

lemma round_ties_even_le_floor: "round_ties_even y \<le> \<lfloor>y\<rfloor> + 1"
  unfolding round_ties_even_def Let_def by simp

lemma round_ties_even_less: "y < of_int M - 1/2 \<Longrightarrow> round_ties_even y < M"
proof -
  assume a: "y < of_int M - 1/2"
  have f: "of_int \<lfloor>y\<rfloor> \<le> y" "y < of_int \<lfloor>y\<rfloor> + 1" by linarith+
  from a f have lt: "\<lfloor>y\<rfloor> < M" by linarith
  show ?thesis
  proof (cases "\<lfloor>y\<rfloor> = M - 1")
    case True
    with a have "y - of_int \<lfloor>y\<rfloor> < 1/2" by simp
    then have "round_ties_even y = \<lfloor>y\<rfloor>"
      unfolding round_ties_even_def Let_def by simp
    with lt show ?thesis by simp
  next
    case False
    with lt have "\<lfloor>y\<rfloor> + 1 < M" by linarith
    with round_ties_even_le_floor [of y] show ?thesis by linarith
  qed
qed

lemma double_eval:
  assumes "2 powr of_int k \<le> \<bar>x\<bar>" "\<bar>x\<bar> < 2 powr of_int (k + 1)"
  shows "double x =
           (let e = max k (- 1022) - 52;
                y = of_int (round_ties_even (x / 2 powr of_int e)) * 2 powr of_int e
            in if \<bar>y\<bar> < 2 powr 1024 then Some y else None)"
  unfolding double_def using round_to_format_eval [OF assms, of 53 "- 1022" 1023] by simp

lemma double_0 [simp]: "double 0 = Some 0"
  by (simp add: double_def round_to_format_def)

lemma small_lt_2_1024: "x < 2 ^ 64 \<Longrightarrow> x < (2::real) powr 1024"
proof -
  assume "x < 2 ^ 64"
  also have "(2::real) ^ 64 = 2 powr 64" by simp
  also have "\<dots> \<le> 2 powr 1024" by (rule powr_mono) simp_all
  finally show ?thesis .
qed

lemma double_005: "double (1 / 20) = Some (3602879701896397 / 72057594037927936)"
proof -
  have "double (1 / 20) =
           (let e = max (- 5) (- 1022) - 52;
                y = of_int (round_ties_even ((1 / 20) / 2 powr of_int e)) * 2 powr of_int e
            in if \<bar>y\<bar> < 2 powr 1024 then Some y else None)"
    by (rule double_eval) (simp_all add: powr_minus)
  also have "\<dots> = Some (3602879701896397 / 72057594037927936)"
    by (simp add: Let_def round_ties_even_def powr_minus small_lt_2_1024)
  finally show ?thesis .
qed

lemma powr_nonpos_int:
  assumes "e \<le> 0"
  shows "(2::real) powr of_int e = 1 / 2 ^ nat (- e)"
  using assms by (simp add: powr_int)

lemma scaled_int:
  assumes "e \<le> 0"
  shows "of_int m / (2::real) powr of_int e = of_int (m * 2 ^ nat (- e))"
  using assms by (simp add: powr_nonpos_int)

lemma exponent_bounds:
  assumes "2 powr of_int k \<le> x" "x < 2 powr of_int (k + 1)"
    and "(2::real) powr of_int a \<le> x" "x < 2 powr of_int b"
  shows "a \<le> k" "k < b"
proof -
  from assms(3,2) have "(2::real) powr of_int a < 2 powr of_int (k + 1)" by linarith
  then have "a < k + 1" by simp
  then show "a \<le> k" by simp
  from assms(1,4) have "(2::real) powr of_int k < 2 powr of_int b" by linarith
  then show "k < b" by simp
qed

lemma double_nat:
  assumes "n < 2 ^ 53"
  shows "double (real n) = Some (real n)"
proof (cases "n = 0")
  case True
  then show ?thesis by simp
next
  case False
  define x where "x = real n"
  have x1: "1 \<le> x" "x < 2 ^ 53"
    using False assms by (simp_all add: x_def)
  define k where "k = \<lfloor>log 2 \<bar>x\<bar>\<rfloor>"
  have br: "2 powr of_int k \<le> \<bar>x\<bar>" "\<bar>x\<bar> < 2 powr of_int (k + 1)"
    using floor_log2_bracket [of x] x1 by (simp_all add: k_def)
  have k: "0 \<le> k" "k < 53"
  proof -
    have "(2::real) powr of_int 0 \<le> x" "x < 2 powr of_int 53"
      using x1 by simp_all
    with exponent_bounds [of k x 0 53] br x1 show "0 \<le> k" "k < 53" by simp_all
  qed
  define e where "e = k - 52"
  have e: "e \<le> 0" "max k (- 1022) - 52 = e"
    using k by (simp_all add: e_def)
  have sc: "x / 2 powr of_int e = of_int (int n * 2 ^ nat (- e))"
    using scaled_int [OF e(1), of "int n"] by (simp add: x_def)
  have "of_int (round_ties_even (x / 2 powr of_int e)) * 2 powr of_int e = x"
    unfolding sc round_ties_even_of_int using e(1) by (simp add: powr_nonpos_int x_def)
  moreover have "\<bar>x\<bar> < 2 powr 1024"
    using x1 by (intro small_lt_2_1024) simp
  ultimately show ?thesis
    unfolding x_def [symmetric] double_eval [OF br] Let_def e(2) by simp
qed

lemma double_product_floor:
  assumes n: "0 < n" "n < 2 ^ 50"
  shows "\<exists>v. double (real n * 3602879701896397 / 72057594037927936) = Some v
             \<and> real (n div 20) \<le> v \<and> v < real (n div 20) + 1"
proof -
  define q where "q = n div 20"
  define r where "r = n mod 20"
  define x :: real where "x = real n * 3602879701896397 / 72057594037927936"
  have nqr: "real n = 20 * real q + real r"
    unfolding q_def r_def by (metis mult_div_mod_eq of_nat_add of_nat_mult of_nat_numeral)
  have r: "real r \<le> 19"
    unfolding r_def by (simp add: less_Suc_eq_le [symmetric]) 
  have n1: "1 \<le> real n" "real n < 1125899906842624"
    using n by simp_all
  have r0: "0 \<le> real r" by simp
  have q: "real q < 70368744177664"
    using n1(2) nqr r0 by linarith
  have xn: "x = real n * 3602879701896397 / 72057594037927936"
    by (simp add: x_def)
  have "real q \<le> x" "1 / 32 \<le> x" "x < 70368744177664"
    "x + x / 9007199254740992 < real q + 1"
    unfolding xn using nqr r r0 q n1 by linarith+
  then have x_lo: "real q \<le> x" "1 / 32 \<le> x"
    and x_hi: "x < 2 ^ 46" "x + x / 2 ^ 53 < real q + 1"
    by simp_all
  have x0: "0 < x" using x_lo(2) by linarith
  define k where "k = \<lfloor>log 2 \<bar>x\<bar>\<rfloor>"
  have br: "2 powr of_int k \<le> \<bar>x\<bar>" "\<bar>x\<bar> < 2 powr of_int (k + 1)"
    using floor_log2_bracket [of x] x0 by (simp_all add: k_def)
  have k: "- 5 \<le> k" "k < 46"
  proof -
    have "(2::real) powr of_int (- 5) \<le> x" "x < 2 powr of_int 46"
      using x_lo(2) x_hi(1) by (simp_all add: powr_minus)
    with exponent_bounds [of k x "- 5" 46] br x0 show "- 5 \<le> k" "k < 46" by simp_all
  qed
  define e where "e = k - 52"
  have e: "e \<le> 0" "max k (- 1022) - 52 = e"
    using k by (simp_all add: e_def)
  define E where "E = nat (- e)"
  have pe: "(2::real) powr of_int e = 1 / 2 ^ E"
    using powr_nonpos_int [OF e(1)] by (simp add: E_def)
  define R where "R = round_ties_even (x / 2 powr of_int e)"
  define v :: real where "v = of_int R * 2 powr of_int e"
  have half_ulp: "1 / 2 ^ E / 2 \<le> x / 2 ^ 53"
  proof -
    have "(2::real) powr of_int e = 2 powr of_int k / 2 ^ 52"
      by (simp add: e_def powr_diff)
    also have "\<dots> \<le> x / 2 ^ 52"
      using br(1) x0 by (intro divide_right_mono) simp_all
    finally have "1 / 2 ^ E \<le> x / 2 ^ 52" unfolding pe .
    then show ?thesis by simp
  qed
  have lo: "int q * 2 ^ E \<le> R"
    unfolding R_def
  proof (rule round_ties_even_ge)
    have "real_of_int (int q * 2 ^ E) = real q * 2 ^ E" by simp
    also have "\<dots> \<le> x * 2 ^ E"
      using x_lo(1) by (intro mult_right_mono) simp_all
    finally show "real_of_int (int q * 2 ^ E) \<le> x / 2 powr of_int e"
      by (simp add: pe)
  qed
  have hi: "R < (int q + 1) * 2 ^ E"
    unfolding R_def
  proof (rule round_ties_even_less)
    have "x + 1 / 2 ^ E / 2 < real q + 1"
      using half_ulp x_hi(2) by linarith
    then have "(x + 1 / 2 ^ E / 2) * 2 ^ E < (real q + 1) * 2 ^ E"
      by (intro mult_strict_right_mono) simp_all
    then have "x * 2 ^ E + 1 / 2 < (real q + 1) * 2 ^ E"
      by (simp add: algebra_simps)
    then show "x / 2 powr of_int e < real_of_int ((int q + 1) * 2 ^ E) - 1 / 2"
      by (simp add: pe)
  qed
  have v_lo: "real q \<le> v"
  proof -
    have le: "real_of_int (int q * 2 ^ E) \<le> real_of_int R"
      using lo by (simp only: of_int_le_iff)
    have "real q = real_of_int (int q * 2 ^ E) / 2 ^ E" by simp
    also have "\<dots> \<le> real_of_int R / 2 ^ E"
      using le by (rule divide_right_mono) simp
    finally show ?thesis by (simp add: v_def pe)
  qed
  have v_hi: "v < real q + 1"
  proof -
    have lt: "real_of_int R < real_of_int ((int q + 1) * 2 ^ E)"
      using hi by (simp only: of_int_less_iff)
    have "real_of_int R / 2 ^ E < real_of_int ((int q + 1) * 2 ^ E) / 2 ^ E"
      using lt by (rule divide_strict_right_mono) simp
    also have "\<dots> = real q + 1" by simp
    finally show ?thesis by (simp add: v_def pe)
  qed
  have "\<bar>v\<bar> < 2 powr 1024"
  proof (rule small_lt_2_1024)
    have "0 \<le> v" using v_lo by linarith
    moreover have "real q + 1 < 2 ^ 64" using q by simp
    ultimately show "\<bar>v\<bar> < 2 ^ 64" using v_hi by linarith
  qed
  then have "double x = Some v"
    unfolding double_eval [OF br] Let_def e(2) v_def R_def by simp
  with v_lo v_hi show ?thesis
    unfolding x_def q_def by blast
qed

section \<open>Properties of the entry point\<close>

lemma any_on_device_host: "all_on_host t \<Longrightarrow> \<not> any_on_device t"
  by (auto simp: all_on_host_def any_on_device_def)

lemma select_func_host:
  "all_on_host t \<Longrightarrow> o' \<noteq> GGML_OP_MUL_MAT \<Longrightarrow> select_func nd t o' = None"
  by (cases o') (simp_all add: any_on_device_host)

text \<open>
  Claim C3, as stated, at a matrix multiplication whose three tensors are on the host:
  with one device present and no override the entry point returns true and calls
  \<open>ggml_cuda_mul_mat\<close>, because \<open>ggml_cuda_can_mul_mat\<close> answers true.
\<close>

theorem C3_counterexample:
  "all_on_host host_mul_mat \<and>
   ggml_cuda_compute_forward 1 compute_params0 host_mul_mat = (True, Some ggml_cuda_mul_mat)"
  by (simp add: all_on_host_def host_mul_mat_def compute_params0_def
      ggml_cuda_compute_forward_def ggml_cuda_can_mul_mat_def any_on_device_def)

text \<open>
  Claim C3, amended: for an operator tag that the \<^verbatim>\<open>switch\<close> does not name (other than
  \<open>GGML_OP_NONE\<close>, which returns true earlier), and for a named tag other than
  \<open>GGML_OP_MUL_MAT\<close> whose destination and sources are all on the host, the entry point
  returns false and calls no compute function, so nothing is allocated, launched or changed.
\<close>

theorem C3_unhandled_returns_false:
  assumes "op tensor = GGML_OP_OTHER n
           \<or> (op tensor \<noteq> GGML_OP_NONE \<and> op tensor \<noteq> GGML_OP_MUL_MAT \<and> all_on_host tensor)"
  shows "ggml_cuda_compute_forward num_devices params tensor = (False, None)"
  using assms
  by (auto simp: ggml_cuda_compute_forward_def select_func_host)

theorem C3_unhandled_returns_false_witness:
  "ggml_cuda_compute_forward 2 compute_params0 (host_mul_mat\<lparr>op := GGML_OP_ADD\<rparr>) = (False, None)
   \<and> ggml_cuda_compute_forward 2 compute_params0 (host_mul_mat\<lparr>op := GGML_OP_OTHER 7\<rparr>)
       = (False, None)"
proof -
  have a: "op (host_mul_mat\<lparr>op := GGML_OP_ADD\<rparr>) \<noteq> GGML_OP_NONE
           \<and> op (host_mul_mat\<lparr>op := GGML_OP_ADD\<rparr>) \<noteq> GGML_OP_MUL_MAT
           \<and> all_on_host (host_mul_mat\<lparr>op := GGML_OP_ADD\<rparr>)"
    by (simp add: all_on_host_def host_mul_mat_def)
  have b: "op (host_mul_mat\<lparr>op := GGML_OP_OTHER 7\<rparr>) = GGML_OP_OTHER 7"
    by simp
  show ?thesis
    using C3_unhandled_returns_false [of "host_mul_mat\<lparr>op := GGML_OP_ADD\<rparr>" 0 2 compute_params0]
      C3_unhandled_returns_false [of "host_mul_mat\<lparr>op := GGML_OP_OTHER 7\<rparr>" 7 2 compute_params0]
      a b
    by blast
qed

text \<open>
  Claim C10: a tensor whose operator is \<open>GGML_OP_NONE\<close> is reported as handled, and no
  compute function is called, whatever the device count (zero included) and whatever the
  override field says (\<open>CUDA_OPT_OP_FORCE_CPU\<close> included): the test on the operator comes
  before both checks.
\<close>

theorem C10_none_is_handled:
  "ggml_cuda_compute_forward num_devices params (tensor\<lparr>op := GGML_OP_NONE\<rparr>) = (True, None)"
  by (simp add: ggml_cuda_compute_forward_def)

section \<open>Properties of the row windows\<close>

lemma sdiv_nonneg: "0 \<le> (n::int) \<Longrightarrow> n sdiv 512 = n div 512"
  by (simp add: signed_divide_int_def sgn_if)

lemma smod_nonneg: "0 \<le> (n::int) \<Longrightarrow> n smod 512 = n mod 512"
  by (simp add: signed_modulo_int_def sgn_if)

lemma split_custom_cut:
  assumes "2 \<le> n" "d < n"
  shows "ggml_cuda_tensor_split_custom g n n_rows d p =
           (cut g n n_rows d, cut g n n_rows (d + 1),
            if d + 1 = n then n_rows smod MATRIX_SPLIT_DIVISIBLE else p)"
  using assms
  by (auto simp: ggml_cuda_tensor_split_custom_def cut_def Let_def)

lemma c_int_mono: "x \<le> y \<Longrightarrow> c_int x \<le> c_int y"
  unfolding c_int_def
  by (auto intro: floor_mono ceiling_mono) (smt (verit) ceiling_le_zero zero_le_floor)

lemma c_int_bounds:
  assumes "0 \<le> x" "x \<le> 1" "0 \<le> (p::int)"
  shows "0 \<le> c_int (x * of_int p)" "c_int (x * of_int p) \<le> p"
proof -
  have a: "0 \<le> x * of_int p" using assms by simp
  have "x * of_int p \<le> 1 * of_int p" using assms by (intro mult_right_mono) auto
  then have b: "x * of_int p \<le> of_int p" by simp
  show "0 \<le> c_int (x * of_int p)" using a by (simp add: c_int_def)
  show "c_int (x * of_int p) \<le> p" using a b by (simp add: c_int_def floor_le_iff) 
qed

lemma cut_mono_step:
  assumes ok: "breakpoints_ok g n" and n: "2 \<le> n" and r: "0 \<le> n_rows" and i: "i < n"
  shows "cut g n n_rows i \<le> cut g n n_rows (i + 1)"
proof -
  let ?p = "n_rows sdiv MATRIX_SPLIT_DIVISIBLE"
  have p: "0 \<le> ?p" "?p * 512 \<le> n_rows"
    using r by (simp_all add: MATRIX_SPLIT_DIVISIBLE_def sdiv_nonneg)
  have g: "\<And>j. 1 \<le> j \<Longrightarrow> j < n \<Longrightarrow> 0 \<le> g j \<and> g j \<le> 1 \<and> (j + 1 < n \<longrightarrow> g j \<le> g (j + 1))"
    using ok by (auto simp: breakpoints_ok_def list_all_iff)
  show ?thesis
  proof (cases "i = 0")
    case True
    then show ?thesis
      using g [of 1] n p c_int_bounds [of "g 1" ?p]
      by (auto simp: cut_def MATRIX_SPLIT_DIVISIBLE_def)
  next
    case False
    show ?thesis
    proof (cases "i + 1 < n")
      case True
      have "g i * of_int ?p \<le> g (i + 1) * of_int ?p"
        using g [of i] False True i p by (intro mult_right_mono) auto
      then show ?thesis
        using False True c_int_mono by (auto simp: cut_def MATRIX_SPLIT_DIVISIBLE_def)
    next
      case F2: False
      have "c_int (g i * of_int ?p) * 512 \<le> ?p * 512"
        using c_int_bounds(2) [of "g i" ?p] g [of i] False i p by auto
      then show ?thesis
        using False F2 i p by (auto simp: cut_def MATRIX_SPLIT_DIVISIBLE_def)
    qed
  qed
qed

lemma chain_union:
  fixes f :: "nat \<Rightarrow> int"
  assumes "\<And>i. i < n \<Longrightarrow> f i \<le> f (i + 1)"
  shows "(\<Union>i<n. {f i..<f (i + 1)}) = {f 0..<f n}"
  using assms
proof (induction n)
  case 0
  then show ?case by simp
next
  case (Suc n)
  have m: "f 0 \<le> f n"
    using Suc.prems by (induction n) (auto intro: order_trans)
  have "(\<Union>i<Suc n. {f i..<f (i + 1)}) = (\<Union>i<n. {f i..<f (i + 1)}) \<union> {f n..<f (n + 1)}"
    by (simp add: lessThan_Suc Un_commute)
  also have "\<dots> = {f 0..<f n} \<union> {f n..<f (n + 1)}"
    using Suc by simp
  also have "\<dots> = {f 0..<f (Suc n)}"
    using m Suc.prems [of n] by auto
  finally show ?case .
qed

lemma chain_mono:
  fixes f :: "nat \<Rightarrow> int"
  assumes "\<And>i. i < n \<Longrightarrow> f i \<le> f (i + 1)" "i \<le> j" "j \<le> n"
  shows "f i \<le> f j"
  using assms(2,3)
proof (induction j)
  case 0
  then show ?case by simp
next
  case (Suc j)
  then show ?case
    using assms(1) [of j] by (cases "i = Suc j") (auto intro: order_trans)
qed

lemma split_partition:
  assumes ok: "breakpoints_ok g n" and n: "2 \<le> n" and r: "0 \<le> n_rows"
  shows "(\<Union>d<n. row_window g n n_rows d) = {0..<n_rows}"
    and "\<And>i j. i < j \<Longrightarrow> j < n \<Longrightarrow> row_window g n n_rows i \<inter> row_window g n n_rows j = {}"
proof -
  let ?f = "cut g n n_rows"
  have w: "\<And>d. d < n \<Longrightarrow> row_window g n n_rows d = {?f d..<?f (d + 1)}"
    using n by (simp add: row_window_def split_custom_cut)
  have step: "\<And>i. i < n \<Longrightarrow> ?f i \<le> ?f (i + 1)"
    using cut_mono_step [OF ok n r] .
  have "(\<Union>d<n. row_window g n n_rows d) = (\<Union>d<n. {?f d..<?f (d + 1)})"
    using w by simp
  also have "\<dots> = {?f 0..<?f n}"
    using step by (rule chain_union)
  also have "\<dots> = {0..<n_rows}"
    using n by (simp add: cut_def)
  finally show "(\<Union>d<n. row_window g n n_rows d) = {0..<n_rows}" .
  fix i j assume ij: "i < j" "j < n"
  have "?f (i + 1) \<le> ?f j"
    using chain_mono [of n ?f "i + 1" j] step ij by simp
  then show "row_window g n n_rows i \<inter> row_window g n n_rows j = {}"
    using w [of i] w [of j] ij by auto
qed

text \<open>
  Scenario C: two devices with proportions \<open>[0.5, 0.5]\<close> and 1024 rows. The break points
  become \<open>[0, 0.5]\<close>, device 0 gets the rows \<open>[0, 512)\<close> and device 1 the rows
  \<open>[512, 1024)\<close>; the padding is the remainder 0, reported for device 1 only.
\<close>

lemma scenario_C:
  "map (\<lambda>d. ggml_cuda_tensor_split_custom
               (ggml_cuda_set_tensor_split 2 (Some (fractions [1/2, 1/2])) (\<lambda>_. 0)) 2 1024 d 7)
     [0, 1] = [(0, 512, 7), (512, 1024, 0)]"
  by (simp add: ggml_cuda_tensor_split_custom_def c_int_def MATRIX_SPLIT_DIVISIBLE_def
      ggml_cuda_set_tensor_split_def split_sums_def fractions_def upt_rec sdiv_nonneg smod_nonneg)

text \<open>
  Claim C2 at its failing inputs. With one device (break points as they are after start-up
  or after \<open>ggml_cuda_set_tensor_split\<close> with one proportion: all zero) the only device gets
  the empty window \<open>[0, 0)\<close> of 1024 rows: the branch for device 0 never assigns
  \<open>n_rows\<close> to \<open>row_high\<close>, as the branch for the other devices does for the last one.
  With three devices and proportions \<open>[1, 0, 1]\<close> the break points become \<open>[0, 1, 0.5]\<close>:
  device 0 gets \<open>[0, 1024)\<close>, device 1 the reversed bounds \<open>(1024, 512)\<close> and device 2
  \<open>[512, 1024)\<close>, so the rows from 512 on are given to two devices.
\<close>

theorem C2_split_windows_fail:
  "ggml_cuda_tensor_split_custom (\<lambda>_. 0) 1 1024 0 0 = (0, 0, 0)
   \<and> ggml_cuda_tensor_split_custom
        (ggml_cuda_set_tensor_split 1 (Some (fractions [1])) (\<lambda>_. 0)) 1 1024 0 0 = (0, 0, 0)
   \<and> map (\<lambda>d. ggml_cuda_tensor_split_custom
               (ggml_cuda_set_tensor_split 3 (Some (fractions [1, 0, 1])) (\<lambda>_. 0)) 3 1024 d 0)
        [0, 1, 2] = [(0, 1024, 0), (1024, 512, 0), (512, 1024, 0)]"
  by (simp add: ggml_cuda_tensor_split_custom_def c_int_def MATRIX_SPLIT_DIVISIBLE_def
      ggml_cuda_set_tensor_split_def split_sums_def fractions_def upt_rec sdiv_nonneg smod_nonneg)

section \<open>Properties of the buffer pool\<close>

text \<open>
  The tolerance is a twentieth of the request, rounded down, for every request below
  \<open>2\<^sup>5\<^sup>0\<close> bytes. Above, the rounding of the product to \<^verbatim>\<open>double\<close> shows: for
  \<open>2\<^sup>6\<^sup>0\<close> bytes it is four more.
\<close>

lemma min_size_diff_ok_div_20:
  assumes "size' < 2 ^ 50"
  shows "min_size_diff_ok size' = size' div 20"
proof (cases "size' = 0")
  case True
  then show ?thesis
    by (simp add: min_size_diff_ok_def double_005)
next
  case False
  then have pos: "0 < size'" by simp
  have d: "double (real size') = Some (real size')"
    using assms by (intro double_nat) simp
  from double_product_floor [OF pos assms] obtain v where
    v: "double (real size' * 3602879701896397 / 72057594037927936) = Some v"
    "real (size' div 20) \<le> v" "v < real (size' div 20) + 1"
    by blast
  have "\<lfloor>v\<rfloor> = int (size' div 20)"
    using v(2,3) by (intro floor_unique) simp_all
  then show ?thesis
    by (simp add: min_size_diff_ok_def d double_005 v(1))
qed

lemma min_size_diff_ok_61440: "min_size_diff_ok 61440 = 3072"
  by (simp add: min_size_diff_ok_div_20)

lemma min_size_diff_ok_large:
  "min_size_diff_ok (2 ^ 60) = 57646075230342352 \<and> (2 ^ 60) div 20 = (57646075230342348::nat)"
proof -
  have a: "double 1152921504606846976 = Some 1152921504606846976"
    by (subst double_eval [where k = 60])
      (simp_all add: round_ties_even_def powr_minus small_lt_2_1024)
  have b: "double (1152921504606846976 * 3602879701896397 / 72057594037927936)
             = Some 57646075230342352"
    by (subst double_eval [where k = 55])
      (simp_all add: round_ties_even_def powr_minus small_lt_2_1024)
  show ?thesis
    using a b by (simp add: min_size_diff_ok_def double_005)
qed

lemma first_slot_Some:
  "first_slot P bs = Some j \<Longrightarrow> j < length bs \<and> P (bs ! j) \<and> (\<forall>i<j. \<not> P (bs ! i))"
proof (induction bs arbitrary: j)
  case Nil
  then show ?case by simp
next
  case (Cons b bs)
  show ?case
  proof (cases "P b")
    case True
    with Cons.prems show ?thesis by simp
  next
    case False
    with Cons.prems obtain k where k: "first_slot P bs = Some k" "j = Suc k"
      by auto
    from Cons.IH [OF k(1)] False k(2) show ?thesis
      by (auto simp: nth_Cons')
  qed
qed

lemma first_slot_None: "first_slot P bs = None \<longleftrightarrow> (\<forall>b\<in>set bs. \<not> P b)"
  by (induction bs) auto




lemma find_best_fit_none:
  "\<forall>b\<in>set bs. \<not> fits size' b \<Longrightarrow> find_best_fit size' ok bs i best m = best"
  by (induction bs arbitrary: i) (auto simp: fits_def)

lemma pool_malloc_reuse:
  assumes "current_device st < length (g_cuda_buffer_pool st)"
    and "pool = g_cuda_buffer_pool st ! current_device st"
    and "find_best_fit size' (min_size_diff_ok size') pool 0 None SIZE_MAX = Some j"
  shows "ggml_cuda_pool_malloc size' dev st =
           Some (ptr (pool ! j), size_bytes (pool ! j),
                 set_pool (pool[j := reuse_slot (pool ! j)]) (current_device st) st)"
  using assms by (simp add: ggml_cuda_pool_malloc_def Let_def reuse_slot_def)

lemma pool_malloc_fresh:
  assumes "current_device st < length (g_cuda_buffer_pool st)"
    and "pool = g_cuda_buffer_pool st ! current_device st"
    and "\<forall>b\<in>set pool. \<not> fits size' b"
  shows "ggml_cuda_pool_malloc size' (Some p) st =
           (case first_slot (\<lambda>b. ptr b = 0 \<and> ptr_in_use b = 0) pool of
              Some j \<Rightarrow>
                Some (p, size',
                      set_pool (pool[j := (pool ! j)\<lparr>ptr := 0, ptr_in_use := p,
                                      size_bytes := size', access_count := 1\<rparr>])
                        (current_device st) (cudaMalloc p size' st))
            | None \<Rightarrow> Some (p, size', cudaMalloc p size' st))"
  using assms by (simp add: ggml_cuda_pool_malloc_def Let_def find_best_fit_none split: option.split)

lemma pool_free_found:
  assumes "current_device st < length (g_cuda_buffer_pool st)"
    and "pool = g_cuda_buffer_pool st ! current_device st"
    and "first_slot (\<lambda>b. ptr b = 0 \<and> ptr_in_use b = p) pool = Some j"
  shows "ggml_cuda_pool_free p size' st =
           Some (set_pool (pool[j := (pool ! j)\<lparr>ptr := p, ptr_in_use := 0,
                   size_bytes := (if size' > 0 then size' else size_bytes (pool ! j)),
                   access_count := 1\<rparr>]) (current_device st) st)"
  using assms by (simp add: ggml_cuda_pool_free_def Let_def)

lemma pool_free_unmatched:
  assumes "current_device st < length (g_cuda_buffer_pool st)"
    and "pool = g_cuda_buffer_pool st ! current_device st"
    and "\<forall>b\<in>set pool. \<not> (ptr b = 0 \<and> ptr_in_use b = p)"
  shows "ggml_cuda_pool_free p size' st =
           Some (cudaFree p (fprintf_stderr ''WARNING (FREE): CUDA BUFFER POOL FULL'' st))"
proof -
  have "first_slot (\<lambda>b. ptr b = 0 \<and> ptr_in_use b = p) pool = None"
    using assms(3) by (simp add: first_slot_None)
  then show ?thesis
    using assms(1,2) by (simp add: ggml_cuda_pool_free_def Let_def)
qed

lemma MAX_CUDA_BUFFERS_Suc: "MAX_CUDA_BUFFERS = Suc 255"
  by (simp add: MAX_CUDA_BUFFERS_def)

lemma pool_of_initial [simp]:
  "g_cuda_buffer_pool (initial_state (Suc n)) ! 0 = empty_buffer # replicate 255 empty_buffer"
  by (simp add: initial_state_def) (metis MAX_CUDA_BUFFERS_Suc replicate_Suc)

lemma scenario_B:
  assumes "p \<noteq> 0"
  shows "\<exists>st1 st2 st3.
           ggml_cuda_pool_malloc 65536 (Some p) (initial_state (Suc n)) = Some (p, 65536, st1)
         \<and> ggml_cuda_pool_free p 65536 st1 = Some st2
         \<and> ggml_cuda_pool_malloc 61440 dev st2 = Some (p, 65536, st3)
         \<and> cuda_calls st3 = [CudaMalloc p 65536]"
proof -
  let ?s0 = "initial_state (Suc n)"
  let ?rest = "replicate 255 empty_buffer"
  let ?b1 = "empty_buffer\<lparr>ptr := 0, ptr_in_use := p, size_bytes := 65536, access_count := 1\<rparr>"
  let ?st1 = "set_pool (?b1 # ?rest) 0 (cudaMalloc p 65536 ?s0)"
  let ?b2 = "?b1\<lparr>ptr := p, ptr_in_use := 0, size_bytes := 65536, access_count := 1\<rparr>"
  let ?st2 = "set_pool (?b2 # ?rest) 0 ?st1"
  have dev0: "current_device ?s0 = 0" "0 < length (g_cuda_buffer_pool ?s0)"
    by (simp_all add: initial_state_def)
  have nofit: "\<forall>b\<in>set (empty_buffer # ?rest). \<not> fits 65536 b"
    by (simp add: fits_def empty_buffer_def)
  have 1: "ggml_cuda_pool_malloc 65536 (Some p) ?s0 = Some (p, 65536, ?st1)"
    using pool_malloc_fresh [of ?s0 "empty_buffer # ?rest" 65536 p] dev0 nofit
    by (simp add: empty_buffer_def)
  have st1: "current_device ?st1 = 0" "0 < length (g_cuda_buffer_pool ?st1)"
    "g_cuda_buffer_pool ?st1 ! 0 = ?b1 # ?rest"
    by (simp_all add: set_pool_def cudaMalloc_def initial_state_def)
  have 2: "ggml_cuda_pool_free p 65536 ?st1 = Some ?st2"
    using pool_free_found [of ?st1 "?b1 # ?rest" p 0 65536] st1
    by simp
  have st2: "current_device ?st2 = 0" "0 < length (g_cuda_buffer_pool ?st2)"
    "g_cuda_buffer_pool ?st2 ! 0 = ?b2 # ?rest"
    by (simp_all add: set_pool_def cudaMalloc_def initial_state_def)
  have rest: "\<forall>b\<in>set ?rest. \<not> fits 61440 b"
    by (simp add: fits_def empty_buffer_def)
  have fbf: "find_best_fit 61440 (min_size_diff_ok 61440) (?b2 # ?rest) 0 None SIZE_MAX = Some 0"
    using assms rest
    by (simp add: find_best_fit_none min_size_diff_ok_61440 SIZE_MAX_def)
  have 3: "ggml_cuda_pool_malloc 61440 dev ?st2
             = Some (p, 65536, set_pool ((?b2 # ?rest)[0 := reuse_slot ?b2]) 0 ?st2)"
    using pool_malloc_reuse [of ?st2 "?b2 # ?rest" 61440 0 dev] st2 fbf
    by simp
  have 4: "cuda_calls (set_pool ((?b2 # ?rest)[0 := reuse_slot ?b2]) 0 ?st2) = [CudaMalloc p 65536]"
    by (simp add: set_pool_def cudaMalloc_def initial_state_def)
  show ?thesis
    using 1 2 3 4 by blast
qed

lemma set_pool_simps [simp]:
  "g_cuda_buffer_pool (set_pool pool d st) = (g_cuda_buffer_pool st)[d := pool]"
  "cuda_calls (set_pool pool d st) = cuda_calls st"
  "current_device (set_pool pool d st) = current_device st"
  "stderr_log (set_pool pool d st) = stderr_log st"
  by (simp_all add: set_pool_def)

lemma cudaMalloc_simps [simp]:
  "g_cuda_buffer_pool (cudaMalloc p s st) = g_cuda_buffer_pool st"
  "cuda_calls (cudaMalloc p s st) = CudaMalloc p s # cuda_calls st"
  "current_device (cudaMalloc p s st) = current_device st"
  "stderr_log (cudaMalloc p s st) = stderr_log st"
  by (simp_all add: cudaMalloc_def)

lemma cudaFree_simps [simp]:
  "g_cuda_buffer_pool (cudaFree p st) = g_cuda_buffer_pool st"
  "cuda_calls (cudaFree p st) = CudaFree p # cuda_calls st"
  "current_device (cudaFree p st) = current_device st"
  "stderr_log (cudaFree p st) = stderr_log st"
  by (simp_all add: cudaFree_def)

lemma fprintf_simps [simp]:
  "g_cuda_buffer_pool (fprintf_stderr m st) = g_cuda_buffer_pool st"
  "cuda_calls (fprintf_stderr m st) = cuda_calls st"
  "current_device (fprintf_stderr m st) = current_device st"
  "stderr_log (fprintf_stderr m st) = m # stderr_log st"
  by (simp_all add: fprintf_stderr_def)

lemma find_best_fit_Some:
  "find_best_fit size' ok bs i best m = Some j \<Longrightarrow>
     best = Some j \<or> (i \<le> j \<and> j < i + length bs \<and> fits size' (bs ! (j - i)))"
proof (induction bs arbitrary: i best m)
  case Nil
  then show ?case by simp
next
  case (Cons b bs)
  show ?case
  proof (cases "fits size' b \<and> overhead size' b < m")
    case True
    show ?thesis
    proof (cases "overhead size' b < ok")
      case True
      with \<open>fits size' b \<and> overhead size' b < m\<close> Cons.prems show ?thesis
        by (simp add: fits_def overhead_def Let_def)
    next
      case False
      with True Cons.prems
      have "find_best_fit size' ok bs (i + 1) (Some i) (overhead size' b) = Some j"
        by (simp add: fits_def overhead_def Let_def)
      from Cons.IH [OF this] True show ?thesis
        by (auto simp: nth_Cons' Suc_diff_le)
    qed
  next
    case False
    with Cons.prems have "find_best_fit size' ok bs (i + 1) best m = Some j"
      by (auto simp: fits_def overhead_def Let_def split: if_splits)
    from Cons.IH [OF this] show ?thesis
      by (auto simp: nth_Cons' Suc_diff_le)
  qed
qed

lemma find_best_fit_Some0:
  "find_best_fit size' ok bs 0 None m = Some j \<Longrightarrow> j < length bs \<and> fits size' (bs ! j)"
  using find_best_fit_Some [of size' ok bs 0 None m j] by simp

lemma malloc_effect:
  assumes m: "ggml_cuda_pool_malloc size' dev st = Some (p, a, st')"
    and d: "d = current_device st" and P: "P = g_cuda_buffer_pool st"
  shows "d < length P \<and> current_device st' = d \<and> stderr_log st' = stderr_log st \<and>
    ((\<exists>j<length (P ! d). fits size' (P ! d ! j) \<and> p = ptr (P ! d ! j)
         \<and> g_cuda_buffer_pool st' = P[d := (P ! d)[j := reuse_slot (P ! d ! j)]]
         \<and> cuda_calls st' = cuda_calls st)
     \<or> (dev = Some p \<and> cuda_calls st' = CudaMalloc p size' # cuda_calls st
         \<and> ((\<exists>j<length (P ! d). ptr (P ! d ! j) = 0 \<and> ptr_in_use (P ! d ! j) = 0
               \<and> g_cuda_buffer_pool st' = P[d := (P ! d)[j := fresh_slot p size' (P ! d ! j)]])
             \<or> g_cuda_buffer_pool st' = P)))"
proof -
  let ?P = "g_cuda_buffer_pool st"
  let ?d = "current_device st"
  from m have dlt: "?d < length ?P"
    by (auto simp: ggml_cuda_pool_malloc_def Let_def split: if_splits)
  show ?thesis
  proof (cases "find_best_fit size' (min_size_diff_ok size') (?P ! ?d) 0 None SIZE_MAX")
    case (Some j)
    from find_best_fit_Some0 [OF Some] have j: "j < length (?P ! ?d)" "fits size' (?P ! ?d ! j)"
      by simp_all
    from m Some dlt have "p = ptr (?P ! ?d ! j)"
      "st' = set_pool ((?P ! ?d)[j := reuse_slot (?P ! ?d ! j)]) ?d st"
      by (simp_all add: pool_malloc_reuse [where pool = "?P ! ?d" and j = j])
    then show ?thesis
      unfolding d P using dlt j by auto
  next
    case None
    from m None dlt obtain q where dev: "dev = Some q"
      by (cases dev) (auto simp: ggml_cuda_pool_malloc_def Let_def)
    show ?thesis
    proof (cases "first_slot (\<lambda>b. ptr b = 0 \<and> ptr_in_use b = 0) (?P ! ?d)")
      case N2: None
      from m None N2 dlt dev have "p = q \<and> st' = cudaMalloc q size' st"
        by (auto simp: ggml_cuda_pool_malloc_def Let_def)
      then show ?thesis
        unfolding d P using dlt dev by simp
    next
      case (Some j)
      from first_slot_Some [OF Some] have j: "j < length (?P ! ?d)"
        "ptr (?P ! ?d ! j) = 0" "ptr_in_use (?P ! ?d ! j) = 0"
        by simp_all
      from m None Some dlt dev have "p = q \<and>
        st' = set_pool ((?P ! ?d)[j := fresh_slot q size' (?P ! ?d ! j)]) ?d (cudaMalloc q size' st)"
        by (auto simp: ggml_cuda_pool_malloc_def Let_def fresh_slot_def)
      then show ?thesis
        unfolding d P using dlt dev j by auto
    qed
  qed
qed

lemma free_effect:
  assumes m: "ggml_cuda_pool_free p size' st = Some st'"
    and d: "d = current_device st" and P: "P = g_cuda_buffer_pool st"
  shows "d < length P \<and> current_device st' = d \<and>
    ((\<exists>j<length (P ! d). ptr (P ! d ! j) = 0 \<and> ptr_in_use (P ! d ! j) = p
         \<and> g_cuda_buffer_pool st' = P[d := (P ! d)[j := freed_slot p size' (P ! d ! j)]]
         \<and> cuda_calls st' = cuda_calls st \<and> stderr_log st' = stderr_log st)
     \<or> ((\<forall>b\<in>set (P ! d). \<not> (ptr b = 0 \<and> ptr_in_use b = p))
         \<and> g_cuda_buffer_pool st' = P \<and> cuda_calls st' = CudaFree p # cuda_calls st
         \<and> stderr_log st' = ''WARNING (FREE): CUDA BUFFER POOL FULL'' # stderr_log st))"
proof -
  let ?P = "g_cuda_buffer_pool st"
  let ?d = "current_device st"
  from m have dlt: "?d < length ?P"
    by (auto simp: ggml_cuda_pool_free_def Let_def split: if_splits)
  show ?thesis
  proof (cases "first_slot (\<lambda>b. ptr b = 0 \<and> ptr_in_use b = p) (?P ! ?d)")
    case None
    then have un: "\<forall>b\<in>set (?P ! ?d). \<not> (ptr b = 0 \<and> ptr_in_use b = p)"
      by (simp add: first_slot_None)
    from m None dlt
    have "st' = cudaFree p (fprintf_stderr ''WARNING (FREE): CUDA BUFFER POOL FULL'' st)"
      by (simp add: ggml_cuda_pool_free_def Let_def)
    then show ?thesis
      unfolding d P using dlt un by simp
  next
    case (Some j)
    from first_slot_Some [OF Some] have j: "j < length (?P ! ?d)"
      "ptr (?P ! ?d ! j) = 0" "ptr_in_use (?P ! ?d ! j) = p"
      by simp_all
    from Some dlt
    have "ggml_cuda_pool_free p size' st
            = Some (set_pool ((?P ! ?d)[j := freed_slot p size' (?P ! ?d ! j)]) ?d st)"
      unfolding freed_slot_def by (intro pool_free_found) simp_all
    with m have "st' = set_pool ((?P ! ?d)[j := freed_slot p size' (?P ! ?d ! j)]) ?d st"
      by simp
    then show ?thesis
      unfolding d P using dlt j by auto
  qed
qed

lemma unallocate_effect:
  assumes m: "ggml_cuda_pool_unallocate p st = Some st'"
    and d: "d = current_device st" and P: "P = g_cuda_buffer_pool st"
  shows "d < length P \<and> current_device st' = d \<and> stderr_log st' = stderr_log st
    \<and> cuda_calls st' = CudaFree p # cuda_calls st \<and>
    ((\<exists>j<length (P ! d). holds_ptr p (P ! d ! j)
         \<and> g_cuda_buffer_pool st' = P[d := (P ! d)[j := cleared_slot (P ! d ! j)]])
     \<or> ((\<forall>b\<in>set (P ! d). \<not> holds_ptr p b) \<and> g_cuda_buffer_pool st' = P))"
proof -
  let ?P = "g_cuda_buffer_pool st"
  let ?d = "current_device st"
  from m have dlt: "?d < length ?P"
    by (auto simp: ggml_cuda_pool_unallocate_def Let_def split: if_splits)
  show ?thesis
  proof (cases "first_slot (\<lambda>b. ptr b = p \<or> ptr_in_use b = p) (?P ! ?d)")
    case None
    then have un: "\<forall>b\<in>set (?P ! ?d). \<not> holds_ptr p b"
      by (simp add: first_slot_None holds_ptr_def)
    from m None dlt have "st' = cudaFree p st"
      by (simp add: ggml_cuda_pool_unallocate_def Let_def)
    then show ?thesis
      unfolding d P using dlt un by simp
  next
    case (Some j)
    from first_slot_Some [OF Some] have j: "j < length (?P ! ?d)" "holds_ptr p (?P ! ?d ! j)"
      by (simp_all add: holds_ptr_def)
    from m Some dlt
    have "st' = cudaFree p (set_pool ((?P ! ?d)[j := cleared_slot (?P ! ?d ! j)]) ?d st)"
      by (simp add: ggml_cuda_pool_unallocate_def Let_def cleared_slot_def)
    then show ?thesis
      unfolding d P using dlt j by auto
  qed
qed

lemma purge_slots_props:
  "purge_slots m bs = (bs', freed) \<Longrightarrow>
     length bs' = length bs
     \<and> (\<forall>i<length bs. bs' ! i =
           (if ptr (bs ! i) \<noteq> 0 \<and> access_count (bs ! i) < m then cleared_slot (bs ! i)
            else bs ! i))
     \<and> set freed = ptr ` {b \<in> set bs. ptr b \<noteq> 0 \<and> access_count b < m}"
proof (induction bs arbitrary: bs' freed)
  case Nil
  then show ?case by simp
next
  case (Cons b bs)
  obtain bs0 fr0 where r: "purge_slots m bs = (bs0, fr0)"
    by (cases "purge_slots m bs")
  note IH = Cons.IH [OF r]
  show ?case
  proof (cases "ptr b \<noteq> 0 \<and> access_count b < m")
    case True
    with Cons.prems r have e: "bs' = cleared_slot b # bs0" "freed = ptr b # fr0"
      by (auto simp: cleared_slot_def)
    show ?thesis
      unfolding e using IH True by (auto simp: nth_Cons')
  next
    case False
    with Cons.prems r have e: "bs' = b # bs0" "freed = fr0"
      by auto
    show ?thesis
      unfolding e using IH False by (auto simp: nth_Cons')
  qed
qed

lemma fold_cudaFree_simps [simp]:
  "g_cuda_buffer_pool (fold cudaFree ps st) = g_cuda_buffer_pool st"
  "current_device (fold cudaFree ps st) = current_device st"
  "stderr_log (fold cudaFree ps st) = stderr_log st"
  "cuda_calls (fold cudaFree ps st) = rev (map CudaFree ps) @ cuda_calls st"
  by (induction ps arbitrary: st) simp_all

lemma purge_effect:
  assumes "ggml_cuda_pool_purge_buffers_with_access_count m d st = Some (n, st')"
    and P_def: "P = g_cuda_buffer_pool st"
  shows "d < length P \<and> stderr_log st' = stderr_log st \<and>
    (\<exists>pool' freed. purge_slots m (P ! d) = (pool', freed)
       \<and> g_cuda_buffer_pool st' = P[d := pool']
       \<and> cuda_calls st' = rev (map CudaFree freed) @ cuda_calls st)"
proof -
  from assms(1) have d: "d < length P"
    by (auto simp: ggml_cuda_pool_purge_buffers_with_access_count_def P_def split: if_splits)
  obtain pool' freed where pf: "purge_slots m (P ! d) = (pool', freed)"
    by (cases "purge_slots m (P ! d)")
  from assms(1) pf d show ?thesis
    by (auto simp: ggml_cuda_pool_purge_buffers_with_access_count_def P_def Let_def
        split: if_splits)
qed

lemma reset_effect:
  assumes "ggml_cuda_pool_reset_all_counters d st = Some st'"
    and P_def: "P = g_cuda_buffer_pool st"
  shows "d < length P \<and> stderr_log st' = stderr_log st \<and> cuda_calls st' = cuda_calls st
    \<and> g_cuda_buffer_pool st'
        = P[d := map (\<lambda>b. if ptr b \<noteq> 0 then b\<lparr>access_count := 0\<rparr> else b) (P ! d)]"
  using assms(1)
  by (auto simp: ggml_cuda_pool_reset_all_counters_def P_def split: if_splits)



lemma same_shape_refl [simp]: "same_shape P P"
  by (simp add: same_shape_def)

lemma same_shape_update:
  "d < length P \<Longrightarrow> same_shape (P[d := (P ! d)[j := b]]) P"
  by (auto simp: same_shape_def nth_list_update)

lemma same_shape_pool:
  "d < length P \<Longrightarrow> length pool' = length (P ! d) \<Longrightarrow> same_shape (P[d := pool']) P"
  by (auto simp: same_shape_def nth_list_update)


lemma slot_ptrs_simps [simp]:
  "slot_ptrs (reuse_slot b) = {ptr b} - {0}"
  "slot_ptrs (fresh_slot p s b) = {p} - {0}"
  "slot_ptrs (freed_slot p s b) = {p} - {0}"
  "slot_ptrs (cleared_slot b) = {}"
  "slot_ptrs (b\<lparr>access_count := n\<rparr>) = slot_ptrs b"
  by (auto simp: slot_ptrs_def reuse_slot_def fresh_slot_def freed_slot_def cleared_slot_def)


























lemma initial_state_1:
  "initial_state (Suc 0) = \<lparr>current_device = 0,
      g_cuda_buffer_pool = [empty_buffer # replicate 255 empty_buffer],
      cuda_calls = [], stderr_log = []\<rparr>"
proof -
  have "replicate MAX_CUDA_BUFFERS empty_buffer = empty_buffer # replicate 255 empty_buffer"
    by (metis MAX_CUDA_BUFFERS_Suc replicate_Suc)
  then show ?thesis by (simp add: initial_state_def)
qed

lemma no_fit_empty: "0 < s \<Longrightarrow> \<forall>b\<in>set (replicate n empty_buffer). \<not> fits s b"
  by (simp add: fits_def empty_buffer_def)

lemma no_fit_empty': "\<forall>b\<in>set (replicate n empty_buffer). \<not> fits s b"
  by (simp add: fits_def empty_buffer_def)

lemma scenario_step1:
  "ggml_cuda_pool_malloc 65536 (Some p) (initial_state 1) = Some (p, 65536, scenario_st1 p)"
proof -
  let ?s = "initial_state (Suc 0)"
  let ?pool = "empty_buffer # replicate 255 empty_buffer"
  have cd: "current_device ?s < length (g_cuda_buffer_pool ?s)"
    by (simp add: initial_state_1)
  have pl: "?pool = g_cuda_buffer_pool ?s ! current_device ?s"
    by (simp add: initial_state_1)
  have nf: "\<forall>b\<in>set ?pool. \<not> fits 65536 b"
    by (simp add: fits_def empty_buffer_def)
  have fs: "first_slot (\<lambda>b. ptr b = 0 \<and> ptr_in_use b = 0) ?pool = Some 0"
    by (simp add: empty_buffer_def)
  have "ggml_cuda_pool_malloc 65536 (Some p) ?s = Some (p, 65536, scenario_st1 p)"
    unfolding pool_malloc_fresh [OF cd pl nf] fs
    by (simp add: initial_state_1 scenario_st1_def set_pool_def cudaMalloc_def empty_buffer_def)
  then show ?thesis by simp
qed

lemma scenario_step2:
  assumes "p \<noteq> 0"
  shows "ggml_cuda_pool_free p 65536 (scenario_st1 p) = Some (scenario_st2 p)"
proof -
  let ?b = "\<lparr>ptr = 0, ptr_in_use = p, size_bytes = 65536, access_count = 1, associated_tensor = 0\<rparr>"
  let ?pool = "?b # replicate 255 empty_buffer"
  have cd: "current_device (scenario_st1 p) < length (g_cuda_buffer_pool (scenario_st1 p))"
    by (simp add: scenario_st1_def)
  have pl: "?pool = g_cuda_buffer_pool (scenario_st1 p) ! current_device (scenario_st1 p)"
    by (simp add: scenario_st1_def)
  have fs: "first_slot (\<lambda>b. ptr b = 0 \<and> ptr_in_use b = p) ?pool = Some 0"
    by simp
  show ?thesis
    unfolding pool_free_found [OF cd pl fs]
    by (simp add: scenario_st1_def scenario_st2_def set_pool_def)
qed

lemma scenario_step3:
  assumes "p \<noteq> 0"
  shows "ggml_cuda_pool_malloc 61440 dev (scenario_st2 p) = Some (p, 65536, scenario_st3 p)"
proof -
  let ?b = "\<lparr>ptr = p, ptr_in_use = 0, size_bytes = 65536, access_count = 1, associated_tensor = 0\<rparr>"
  let ?pool = "?b # replicate 255 empty_buffer"
  have cd: "current_device (scenario_st2 p) < length (g_cuda_buffer_pool (scenario_st2 p))"
    by (simp add: scenario_st2_def)
  have pl: "?pool = g_cuda_buffer_pool (scenario_st2 p) ! current_device (scenario_st2 p)"
    by (simp add: scenario_st2_def)
  have "find_best_fit 61440 (min_size_diff_ok 61440) (replicate 255 empty_buffer) (0 + 1) (Some 0) 4096
          = Some 0"
    by (rule find_best_fit_none) (simp add: fits_def empty_buffer_def)
  then have fbf: "find_best_fit 61440 (min_size_diff_ok 61440) ?pool 0 None SIZE_MAX = Some 0"
    using assms by (simp add: min_size_diff_ok_61440 SIZE_MAX_def)
  show ?thesis
    unfolding pool_malloc_reuse [OF cd pl fbf]
    by (simp add: scenario_st2_def scenario_st3_def set_pool_def reuse_slot_def)
qed

lemma scenario_run:
  assumes "p \<noteq> 0"
  shows "run_ops [Malloc 65536 (Some p), Free p 65536, Malloc 61440 dev] (initial_state 1)
           = Some (scenario_st3 p)"
    and "dev = None \<Longrightarrow>
           run_ok [Malloc 65536 (Some p), Free p 65536, Malloc 61440 dev] (initial_state 1)"
proof -
  have 1: "apply_op (Malloc 65536 (Some p)) (initial_state 1) = Some (scenario_st1 p)"
    using scenario_step1 [of p] by simp
  have 2: "apply_op (Free p 65536) (scenario_st1 p) = Some (scenario_st2 p)"
    using scenario_step2 [OF assms] by simp
  have 3: "apply_op (Malloc 61440 dev) (scenario_st2 p) = Some (scenario_st3 p)"
    using scenario_step3 [OF assms, of dev] by simp
  show "run_ops [Malloc 65536 (Some p), Free p 65536, Malloc 61440 dev] (initial_state 1)
           = Some (scenario_st3 p)"
    by (simp only: run_ops.simps 1 2 3 option.case)
  have o1: "op_ok (initial_state 1) (Malloc 65536 (Some p))"
    using assms by (simp add: initial_state_def)
  have o2: "op_ok (scenario_st1 p) (Free p 65536)"
    by (simp add: scenario_st1_def)
  assume "dev = None"
  then have o3: "op_ok (scenario_st2 p) (Malloc 61440 dev)"
    by simp
  show "run_ok [Malloc 65536 (Some p), Free p 65536, Malloc 61440 dev] (initial_state 1)"
    by (simp only: run_ok.simps 1 2 3 o1 o2 o3 option.case simp_thms)
qed









lemma pool_malloc_full:
  assumes "current_device st < length (g_cuda_buffer_pool st)"
    and "pool = g_cuda_buffer_pool st ! current_device st"
    and "\<forall>b\<in>set pool. \<not> fits size' b"
    and "\<forall>b\<in>set pool. ptr b \<noteq> 0 \<or> ptr_in_use b \<noteq> 0"
  shows "ggml_cuda_pool_malloc size' (Some p) st = Some (p, size', cudaMalloc p size' st)"
proof -
  have "first_slot (\<lambda>b. ptr b = 0 \<and> ptr_in_use b = 0) pool = None"
    using assms(4) by (simp add: first_slot_None)
  then show ?thesis
    unfolding pool_malloc_fresh [OF assms(1,2,3)] by simp
qed

lemma same_shape_trans: "same_shape A B \<Longrightarrow> same_shape B C \<Longrightarrow> same_shape A C"
  by (simp add: same_shape_def)

lemma same_shape_apply_op:
  assumes "apply_op x st = Some st'"
  shows "same_shape (g_cuda_buffer_pool st') (g_cuda_buffer_pool st)"
proof (cases x)
  case (Malloc s dev)
  with assms obtain p a where "ggml_cuda_pool_malloc s dev st = Some (p, a, st')"
    by auto
  from malloc_effect [OF this refl refl] show ?thesis
    by (auto simp: same_shape_update)
next
  case (Free p s)
  with assms have "ggml_cuda_pool_free p s st = Some st'" by simp
  from free_effect [OF this refl refl] show ?thesis
    by (auto simp: same_shape_update)
next
  case (Unallocate p)
  with assms have "ggml_cuda_pool_unallocate p st = Some st'" by simp
  from unallocate_effect [OF this refl refl] show ?thesis
    by (auto simp: same_shape_update)
next
  case (Purge mn d)
  with assms obtain n where "ggml_cuda_pool_purge_buffers_with_access_count mn d st = Some (n, st')"
    by auto
  from purge_effect [OF this refl] obtain pool' freed
    where d: "d < length (g_cuda_buffer_pool st)"
      and pf: "purge_slots mn (g_cuda_buffer_pool st ! d) = (pool', freed)"
      and P': "g_cuda_buffer_pool st' = (g_cuda_buffer_pool st)[d := pool']"
    by blast
  from purge_slots_props [OF pf] have "length pool' = length (g_cuda_buffer_pool st ! d)"
    by simp
  with d P' show ?thesis
    by (simp add: same_shape_pool)
next
  case (ResetCounters d)
  with assms have "ggml_cuda_pool_reset_all_counters d st = Some st'" by simp
  from reset_effect [OF this refl] show ?thesis
    by (simp add: same_shape_pool)
next
  case (SetDevice d)
  with assms show ?thesis
    by (auto simp: cudaSetDevice_def split: if_splits)
qed

lemma same_shape_run_ops:
  "run_ops xs st = Some st' \<Longrightarrow> same_shape (g_cuda_buffer_pool st') (g_cuda_buffer_pool st)"
proof (induction xs arbitrary: st)
  case Nil
  then show ?case by simp
next
  case (Cons x xs)
  from Cons.prems obtain st1 where s1: "apply_op x st = Some st1" "run_ops xs st1 = Some st'"
    by (auto split: option.splits)
  from same_shape_trans [OF Cons.IH [OF s1(2)] same_shape_apply_op [OF s1(1)]] show ?case .
qed

lemma tracked_slots_bound:
  assumes "run_ops xs (initial_state n) = Some st'" "pool' \<in> set (g_cuda_buffer_pool st')"
  shows "tracked_slots pool' \<le> MAX_CUDA_BUFFERS"
proof -
  from assms(2) obtain d where d: "d < length (g_cuda_buffer_pool st')"
    "pool' = g_cuda_buffer_pool st' ! d"
    by (auto simp: in_set_conv_nth)
  from same_shape_run_ops [OF assms(1)] d have "length pool' = MAX_CUDA_BUFFERS"
    by (simp add: same_shape_def initial_state_def)
  moreover have "tracked_slots pool' \<le> length pool'"
    by (simp add: tracked_slots_def)
  ultimately show ?thesis by simp
qed

lemma full_state_facts:
  "current_device full_state < length (g_cuda_buffer_pool full_state)"
  "\<forall>b\<in>set (g_cuda_buffer_pool full_state ! current_device full_state). \<not> fits 32 b"
  "\<forall>b\<in>set (g_cuda_buffer_pool full_state ! current_device full_state).
     ptr b \<noteq> 0 \<or> ptr_in_use b \<noteq> 0"
  by (simp_all add: full_state_def fits_def)

text \<open>
  Claim C6, as stated, on a table whose 256 slots are all in use: allocation makes the raw
  device allocation and returns its pointer, but writes nothing to \<^verbatim>\<open>stderr\<close>; the only
  warning of the pool is the one in \<^verbatim>\<open>ggml_cuda_pool_free\<close>.
\<close>

theorem C6_counterexample:
  "tracked_slots (g_cuda_buffer_pool full_state ! 0) = MAX_CUDA_BUFFERS
   \<and> ggml_cuda_pool_malloc 32 (Some 1000) full_state = Some (1000, 32, cudaMalloc 1000 32 full_state)
   \<and> stderr_log (cudaMalloc 1000 32 full_state) = stderr_log full_state
   \<and> stderr_log full_state = []"
proof -
  have "tracked_slots (g_cuda_buffer_pool full_state ! 0) = MAX_CUDA_BUFFERS"
    by (simp add: tracked_slots_def full_state_def filter_map o_def)
  moreover have "ggml_cuda_pool_malloc 32 (Some 1000) full_state
                   = Some (1000, 32, cudaMalloc 1000 32 full_state)"
    by (rule pool_malloc_full [OF full_state_facts(1) refl full_state_facts(2,3)])
  moreover have "stderr_log full_state = []"
    by (simp add: full_state_def)
  ultimately show ?thesis by simp
qed







text \<open>
  Claim C6, amended. When no slot of the current device fits the request and none is empty,
  allocation makes a raw device allocation and returns its pointer; the table and
  \<^verbatim>\<open>stderr\<close> are unchanged (no registration, no warning). A free of a pointer that no
  in-use slot of the current device matches passes it to \<^verbatim>\<open>cudaFree\<close> and writes the
  warning. After any sequence of calls from the initial table no device has more than
  \<open>MAX_CUDA_BUFFERS\<close> tracked slots.
\<close>

theorem C6_pool_full_degrades:
  "(current_device st < length (g_cuda_buffer_pool st)
      \<and> pool = g_cuda_buffer_pool st ! current_device st
      \<and> (\<forall>b\<in>set pool. \<not> fits size' b) \<and> (\<forall>b\<in>set pool. ptr b \<noteq> 0 \<or> ptr_in_use b \<noteq> 0)
    \<longrightarrow> ggml_cuda_pool_malloc size' (Some p) st = Some (p, size', cudaMalloc p size' st))
   \<and> (current_device st < length (g_cuda_buffer_pool st)
      \<and> pool = g_cuda_buffer_pool st ! current_device st
      \<and> (\<forall>b\<in>set pool. \<not> (ptr b = 0 \<and> ptr_in_use b = q))
    \<longrightarrow> ggml_cuda_pool_free q s st
          = Some (cudaFree q (fprintf_stderr ''WARNING (FREE): CUDA BUFFER POOL FULL'' st)))
   \<and> (run_ops xs (initial_state n) = Some st' \<longrightarrow>
        (\<forall>pool'\<in>set (g_cuda_buffer_pool st'). tracked_slots pool' \<le> MAX_CUDA_BUFFERS))"
  using pool_malloc_full [of st pool size' p] pool_free_unmatched [of st pool q s]
    tracked_slots_bound [of xs n st']
  by blast

theorem C6_pool_full_degrades_witness:
  "ggml_cuda_pool_malloc 32 (Some 1000) full_state = Some (1000, 32, cudaMalloc 1000 32 full_state)
   \<and> ggml_cuda_pool_free 1000 32 full_state
       = Some (cudaFree 1000 (fprintf_stderr ''WARNING (FREE): CUDA BUFFER POOL FULL'' full_state))
   \<and> run_ops [Malloc 65536 (Some 4096), Free 4096 65536, Malloc 61440 None] (initial_state 1)
       = Some (scenario_st3 4096)
   \<and> tracked_slots (g_cuda_buffer_pool (scenario_st3 4096) ! 0) \<le> MAX_CUDA_BUFFERS"
proof -
  let ?pool = "g_cuda_buffer_pool full_state ! current_device full_state"
  have h1: "current_device full_state < length (g_cuda_buffer_pool full_state)
      \<and> ?pool = g_cuda_buffer_pool full_state ! current_device full_state
      \<and> (\<forall>b\<in>set ?pool. \<not> fits 32 b) \<and> (\<forall>b\<in>set ?pool. ptr b \<noteq> 0 \<or> ptr_in_use b \<noteq> 0)"
    using full_state_facts by simp
  have h2: "current_device full_state < length (g_cuda_buffer_pool full_state)
      \<and> ?pool = g_cuda_buffer_pool full_state ! current_device full_state
      \<and> (\<forall>b\<in>set ?pool. \<not> (ptr b = 0 \<and> ptr_in_use b = 1000))"
    by (simp add: full_state_def MAX_CUDA_BUFFERS_def)
  have h3: "run_ops [Malloc 65536 (Some 4096), Free 4096 65536, Malloc 61440 None] (initial_state 1)
       = Some (scenario_st3 4096)"
    by (rule scenario_run) simp
  have h4: "g_cuda_buffer_pool (scenario_st3 4096) ! 0 \<in> set (g_cuda_buffer_pool (scenario_st3 4096))"
    by (simp add: scenario_st3_def)
  from C6_pool_full_degrades [of full_state ?pool 32 1000 1000 32
      "[Malloc 65536 (Some 4096), Free 4096 65536, Malloc 61440 None]" 1 "scenario_st3 4096"]
    h1 h2 h3 h4
  show ?thesis by blast
qed

section \<open>Properties of the capability check in the device loop\<close>

lemma lacks_capability_iff:
  "lacks_capability g r id' =
     (min_capability_major r \<noteq> 0
      \<and> \<not> has_capability g (min_capability_major r) (min_capability_minor r) id')"
  by (simp add: lacks_capability_def has_capability_def)

lemma device_loop_f8e4:
  assumes name: "op_name c = ''ggml_cuda_mul_mat_cublas_f8e4''"
    and main: "has_capability g 8 9 (g_main_device g)"
  shows "sorted ids \<Longrightarrow> min_capability_major r = 8 \<Longrightarrow> min_capability_minor r = 9 \<Longrightarrow>
    \<exists>ds. device_loop g c split ids (f, r) = Inr ds
      \<and> (\<forall>(id', h)\<in>set ds. id' \<in> set ids
            \<and> (\<not> has_capability g 8 9 id' \<longrightarrow> h = ggml_cuda_op_mul_mat_cublas_f16_f32_wrapper)
            \<and> ((\<forall>i\<in>set ids. i \<le> id' \<longrightarrow> has_capability g 8 9 i) \<longrightarrow> h = f))"
proof (induction ids arbitrary: f r)
  case Nil
  then show ?case by simp
next
  case (Cons a ids)
  let ?w = "ggml_cuda_op_mul_mat_cublas_f16_f32_wrapper"
  from Cons.prems have srt: "sorted ids" and le: "\<And>i. i \<in> set ids \<Longrightarrow> a \<le> i"
    by auto
  have lk: "\<And>r' i. min_capability_major r' = 8 \<Longrightarrow> min_capability_minor r' = 9 \<Longrightarrow>
              lacks_capability g r' i = (\<not> has_capability g 8 9 i)"
    by (simp add: lacks_capability_iff)
  show ?case
  proof (cases "\<not> split \<and> a \<noteq> g_main_device g")
    case True
    from Cons.IH [OF srt Cons.prems(2,3), of f] obtain ds
      where ds: "device_loop g c split ids (f, r) = Inr ds"
        and p: "\<forall>(id', h)\<in>set ds. id' \<in> set ids
            \<and> (\<not> has_capability g 8 9 id' \<longrightarrow> h = ?w)
            \<and> ((\<forall>i\<in>set ids. i \<le> id' \<longrightarrow> has_capability g 8 9 i) \<longrightarrow> h = f)"
      by blast
    from True ds have "device_loop g c split (a # ids) (f, r) = Inr ds"
      by simp
    with p show ?thesis by fastforce
  next
    case False
    define f' where "f' = (if has_capability g 8 9 a then f else ?w)"
    define r' where "r' = (if has_capability g 8 9 a then r
                           else r\<lparr>src0_needs_f16 := True, src0_needs_f8e4 := False\<rparr>)"
    have r': "min_capability_major r' = 8" "min_capability_minor r' = 9"
      using Cons.prems(2,3) by (simp_all add: r'_def)
    have am: "\<not> has_capability g 8 9 a \<Longrightarrow> a \<noteq> g_main_device g"
      using main by auto
    from Cons.IH [OF srt r', of f'] obtain ds
      where ds: "device_loop g c split ids (f', r') = Inr ds"
        and p: "\<forall>(id', h)\<in>set ds. id' \<in> set ids
            \<and> (\<not> has_capability g 8 9 id' \<longrightarrow> h = ?w)
            \<and> ((\<forall>i\<in>set ids. i \<le> id' \<longrightarrow> has_capability g 8 9 i) \<longrightarrow> h = f')"
      by blast
    have step: "device_loop g c split (a # ids) (f, r) = Inr ds
                \<or> device_loop g c split (a # ids) (f, r) = Inr ((a, f') # ds)"
      using False ds name am lk [OF Cons.prems(2,3), of a]
      by (auto simp: f'_def r'_def Let_def split: prod.splits)
    have hd: "(\<not> has_capability g 8 9 a \<longrightarrow> f' = ?w)
              \<and> ((\<forall>i\<in>set (a # ids). i \<le> a \<longrightarrow> has_capability g 8 9 i) \<longrightarrow> f' = f)"
      by (simp add: f'_def)
    have tl: "\<forall>(id', h)\<in>set ds. id' \<in> set (a # ids)
            \<and> (\<not> has_capability g 8 9 id' \<longrightarrow> h = ?w)
            \<and> ((\<forall>i\<in>set (a # ids). i \<le> id' \<longrightarrow> has_capability g 8 9 i) \<longrightarrow> h = f)"
    proof (clarify, intro conjI impI)
      fix id' h assume m: "(id', h) \<in> set ds"
      with p have q: "id' \<in> set ids" "\<not> has_capability g 8 9 id' \<longrightarrow> h = ?w"
        "(\<forall>i\<in>set ids. i \<le> id' \<longrightarrow> has_capability g 8 9 i) \<longrightarrow> h = f'"
        by auto
      show "id' \<in> set (a # ids)" using q(1) by simp
      show "\<not> has_capability g 8 9 id' \<Longrightarrow> h = ?w" using q(2) by simp
      assume all: "\<forall>i\<in>set (a # ids). i \<le> id' \<longrightarrow> has_capability g 8 9 i"
      with le [OF q(1)] have "has_capability g 8 9 a" by simp
      then have "f' = f" by (simp add: f'_def)
      with q(3) all show "h = f" by simp
    qed
    from step show ?thesis
    proof
      assume "device_loop g c split (a # ids) (f, r) = Inr ds"
      with tl show ?thesis by blast
    next
      assume "device_loop g c split (a # ids) (f, r) = Inr ((a, f') # ds)"
      with tl hd show ?thesis by auto
    qed
  qed
qed

lemma device_loop_abort:
  assumes "id' \<in> set ids" "split \<or> id' = g_main_device g"
    and "\<And>r'. min_capability_major r' = min_capability_major r \<Longrightarrow>
               min_capability_minor r' = min_capability_minor r \<Longrightarrow> lacks_capability g r' id'"
    and "op_name c \<noteq> ''ggml_cuda_mul_mat_cublas_f8e4'' \<or> id' = g_main_device g"
  shows "\<exists>e. device_loop g c split ids (f, r) = Inl e"
  using assms
proof (induction ids arbitrary: f r)
  case Nil
  then show ?case by simp
next
  case (Cons a ids)
  show ?case
  proof (cases "a = id'")
    case True
    with Cons.prems(2,4) Cons.prems(3) [of r] show ?thesis
      by auto
  next
    case False
    with Cons.prems(1) have mem: "id' \<in> set ids" by simp
    have IH: "\<And>f' r'. min_capability_major r' = min_capability_major r \<Longrightarrow>
               min_capability_minor r' = min_capability_minor r \<Longrightarrow>
               \<exists>e. device_loop g c split ids (f', r') = Inl e"
      using Cons.IH [OF mem Cons.prems(2) _ Cons.prems(4)] Cons.prems(3) by simp
    from IH [of r f] obtain e1 where e1: "device_loop g c split ids (f, r) = Inl e1"
      by auto
    from IH [of "r\<lparr>src0_needs_f16 := True, src0_needs_f8e4 := False\<rparr>"
        ggml_cuda_op_mul_mat_cublas_f16_f32_wrapper]
    obtain e2 where e2: "device_loop g c split ids
        (ggml_cuda_op_mul_mat_cublas_f16_f32_wrapper,
         r\<lparr>src0_needs_f16 := True, src0_needs_f8e4 := False\<rparr>) = Inl e2"
      by auto
    show ?thesis
      using e1 e2 by (auto simp: Let_def split: prod.splits)
  qed
qed


lemma requirements_f8e4:
  assumes "op_name c = ''ggml_cuda_mul_mat_cublas_f8e4''"
  shows "min_capability_major (choose_requirements c r) = 8"
    "min_capability_minor (choose_requirements c r) = 9"
    "src0_needs_f32 (choose_requirements c r) = False"
    "src0_needs_f16 (choose_requirements c r) = False"
    "src0_needs_f8e4 (choose_requirements c r) = True"
  using assms by (simp_all add: choose_requirements_def)

lemma requirements_f16:
  assumes "op_name c = ''ggml_cuda_mul_mat_cublas_f16''"
  shows "min_capability_major (choose_requirements c r) = 6"
    "min_capability_minor (choose_requirements c r) = 1"
    "src0_needs_f32 (choose_requirements c r) = False"
    "src0_needs_f16 (choose_requirements c r) = True"
    "src0_needs_f8e4 (choose_requirements c r) = False"
  using assms by (simp_all add: choose_requirements_def)

lemma requirements_q:
  assumes "op_name c = ''ggml_cuda_mul_mat_q''"
  shows "min_capability_major (choose_requirements c r) = 6"
    "min_capability_minor (choose_requirements c r) = 1"
    "src0_needs_f16 (choose_requirements c r) = False"
    "src0_needs_f8e4 (choose_requirements c r) = False"
  using assms by (simp_all add: choose_requirements_def Let_def)

lemma op_devices_f8e4:
  assumes name: "op_name c = ''ggml_cuda_mul_mat_cublas_f8e4''"
    and main: "has_capability g 8 9 (g_main_device g)"
  shows "\<exists>ds. ggml_cuda_op_devices g c n32 fl n16 n8 = Inr ds
      \<and> (\<forall>(id', h)\<in>set ds. id' < g_device_count g
            \<and> (\<not> has_capability g 8 9 id' \<longrightarrow> h = ggml_cuda_op_mul_mat_cublas_f16_f32_wrapper)
            \<and> ((\<forall>i\<le>id'. has_capability g 8 9 i) \<longrightarrow> h = op_fn c))"
proof -
  let ?init = "\<lparr>src0_needs_f32 = n32, flatten_rows = fl, src0_needs_f16 = n16,
                 src0_needs_f8e4 = n8, src0_needs_ddq = False,
                 min_capability_major = 0, min_capability_minor = 0\<rparr>"
  let ?r = "choose_requirements c ?init"
  have rq: "min_capability_major ?r = 8" "min_capability_minor ?r = 9"
    "\<not> src0_needs_f32 ?r" "\<not> src0_needs_f16 ?r" "src0_needs_f8e4 ?r"
    using requirements_f8e4 [OF name, where r = ?init] by simp_all
  have eq: "ggml_cuda_op_devices g c n32 fl n16 n8
              = device_loop g c (is_split g c ?r) [0..<g_device_count g] (op_fn c, ?r)"
    unfolding ggml_cuda_op_devices_def Let_def using rq(3,4,5) by simp
  from device_loop_f8e4 [OF name main, of "[0..<g_device_count g]" ?r "is_split g c ?r" "op_fn c"] rq
  obtain ds where ds: "device_loop g c (is_split g c ?r) [0..<g_device_count g] (op_fn c, ?r) = Inr ds"
    and p: "\<forall>(id', h)\<in>set ds. id' \<in> set [0..<g_device_count g]
            \<and> (\<not> has_capability g 8 9 id' \<longrightarrow> h = ggml_cuda_op_mul_mat_cublas_f16_f32_wrapper)
            \<and> ((\<forall>i\<in>set [0..<g_device_count g]. i \<le> id' \<longrightarrow> has_capability g 8 9 i)
                 \<longrightarrow> h = op_fn c)"
    by auto
  have "\<forall>(id', h)\<in>set ds. id' < g_device_count g
            \<and> (\<not> has_capability g 8 9 id' \<longrightarrow> h = ggml_cuda_op_mul_mat_cublas_f16_f32_wrapper)
            \<and> ((\<forall>i\<le>id'. has_capability g 8 9 i) \<longrightarrow> h = op_fn c)"
    using p by fastforce
  with ds eq show ?thesis by simp
qed

lemma op_devices_abort:
  assumes name: "op_name c = ''ggml_cuda_mul_mat_cublas_f16'' \<or> op_name c = ''ggml_cuda_mul_mat_q''"
    and id': "id' < g_device_count g"
    and visited: "src0_backend c = GGML_BACKEND_GPU_SPLIT \<or> id' = g_main_device g"
    and lacks: "\<not> has_capability g 6 1 id'"
  shows "\<exists>e. ggml_cuda_op_devices g c n32 fl n16 n8 = Inl e"
proof -
  let ?init = "\<lparr>src0_needs_f32 = n32, flatten_rows = fl, src0_needs_f16 = n16,
                 src0_needs_f8e4 = n8, src0_needs_ddq = False,
                 min_capability_major = 0, min_capability_minor = 0\<rparr>"
  let ?r = "choose_requirements c ?init"
  have rq: "min_capability_major ?r = 6" "min_capability_minor ?r = 1"
    using name requirements_f16(1,2) [of c ?init] requirements_q(1,2) [of c ?init] by auto
  have ne: "op_name c \<noteq> ''ggml_cuda_mul_mat_cublas_f8e4''"
    using name by auto
  have vis: "is_split g c ?r \<or> id' = g_main_device g"
    using visited by (auto simp: is_split_def)
  have "\<exists>e. device_loop g c (is_split g c ?r) [0..<g_device_count g] (op_fn c, ?r) = Inl e"
  proof (rule device_loop_abort [OF _ vis])
    show "id' \<in> set [0..<g_device_count g]" using id' by simp
    show "\<And>r'. min_capability_major r' = min_capability_major ?r \<Longrightarrow>
               min_capability_minor r' = min_capability_minor ?r \<Longrightarrow> lacks_capability g r' id'"
      using lacks rq by (simp add: lacks_capability_iff)
    show "op_name c \<noteq> ''ggml_cuda_mul_mat_cublas_f8e4'' \<or> id' = g_main_device g"
      using ne by simp
  qed
  moreover have "of_bool (src0_needs_f32 ?r) + of_bool (src0_needs_f16 ?r)
                  + of_bool (src0_needs_f8e4 ?r) \<le> (1::int)"
    using name requirements_f16(3,4,5) [of c ?init] requirements_q(3,4) [of c ?init] by auto
  ultimately show ?thesis
    unfolding ggml_cuda_op_devices_def Let_def by simp
qed

lemma op_devices_abort_main:
  assumes name: "op_name c = ''ggml_cuda_mul_mat_cublas_f8e4''"
    and main: "g_main_device g < g_device_count g"
    and lacks: "\<not> has_capability g 8 9 (g_main_device g)"
  shows "\<exists>e. ggml_cuda_op_devices g c n32 fl n16 n8 = Inl e"
proof -
  let ?init = "\<lparr>src0_needs_f32 = n32, flatten_rows = fl, src0_needs_f16 = n16,
                 src0_needs_f8e4 = n8, src0_needs_ddq = False,
                 min_capability_major = 0, min_capability_minor = 0\<rparr>"
  let ?r = "choose_requirements c ?init"
  have rq: "min_capability_major ?r = 8" "min_capability_minor ?r = 9"
    "\<not> src0_needs_f32 ?r" "\<not> src0_needs_f16 ?r" "src0_needs_f8e4 ?r"
    using requirements_f8e4 [OF name, where r = ?init] by simp_all
  have "\<exists>e. device_loop g c (is_split g c ?r) [0..<g_device_count g] (op_fn c, ?r) = Inl e"
  proof (rule device_loop_abort [where id' = "g_main_device g"])
    show "g_main_device g \<in> set [0..<g_device_count g]" using main by simp
    show "\<And>r'. min_capability_major r' = min_capability_major ?r \<Longrightarrow>
               min_capability_minor r' = min_capability_minor ?r \<Longrightarrow>
               lacks_capability g r' (g_main_device g)"
      using lacks rq by (simp add: lacks_capability_iff)
  qed simp_all
  then show ?thesis
    unfolding ggml_cuda_op_devices_def Let_def using rq(3,4,5) by simp
qed

text \<open>
  Claim C7, as stated, on two devices that split a weight tensor of 1024 rows, for the
  quantized multiply \<^verbatim>\<open>ggml_cuda_mul_mat_q\<close>, which asks for compute capability 6.1: device
  1 has capability 5.2 and takes part in the split, and the call ends in
  \<^verbatim>\<open>GGML_ASSERT(false)\<close>; no substitute is chosen and the operation as a whole fails.
\<close>

theorem C7_counterexample:
  "g_device_count old_gpus = 2 \<and> g_main_device old_gpus = 0
   \<and> has_capability old_gpus 6 1 0 \<and> has_capability old_gpus 6 1 1 = False
   \<and> ggml_cuda_op_devices old_gpus call_q True True True True = Inl (GGML_ASSERT ''false'')"
  by (simp add: old_gpus_def two_gpus_def call_q_def has_capability_def
      ggml_cuda_op_devices_def choose_requirements_def is_split_def lacks_capability_def
      upt_rec Let_def ggml_cuda_tensor_split_custom_def
      c_int_def MATRIX_SPLIT_DIVISIBLE_def signed_divide_int_def signed_modulo_int_def)

text \<open>
  Claim C7, amended. The substitution exists for the 8-bit-exponent cuBLAS multiply only.
  When the main device has compute capability 8.9, the device loop ends without a failed
  assertion; every device that reaches the computation and lacks capability 8.9 calls the
  16-bit-float cuBLAS wrapper, and every device such that it and all devices before it have
  capability 8.9 calls the function that was passed in. For the 16-bit-float cuBLAS
  multiply and for the quantized multiply, a visited device below capability 6.1 ends the
  call in a failed assertion, and so does a main device below 8.9 for the 8-bit-exponent
  multiply.
\<close>

theorem C7_capability_fallback:
  "(op_name c = ''ggml_cuda_mul_mat_cublas_f8e4'' \<and> has_capability g 8 9 (g_main_device g)
      \<longrightarrow> (\<exists>ds. ggml_cuda_op_devices g c n32 fl n16 n8 = Inr ds
            \<and> (\<forall>(id', h)\<in>set ds. id' < g_device_count g
                 \<and> (\<not> has_capability g 8 9 id'
                      \<longrightarrow> h = ggml_cuda_op_mul_mat_cublas_f16_f32_wrapper)
                 \<and> ((\<forall>i\<le>id'. has_capability g 8 9 i) \<longrightarrow> h = op_fn c))))
   \<and> ((op_name c = ''ggml_cuda_mul_mat_cublas_f16'' \<or> op_name c = ''ggml_cuda_mul_mat_q'')
        \<and> id' < g_device_count g
        \<and> (src0_backend c = GGML_BACKEND_GPU_SPLIT \<or> id' = g_main_device g)
        \<and> \<not> has_capability g 6 1 id'
      \<longrightarrow> (\<exists>e. ggml_cuda_op_devices g c n32 fl n16 n8 = Inl e))
   \<and> (op_name c = ''ggml_cuda_mul_mat_cublas_f8e4'' \<and> g_main_device g < g_device_count g
        \<and> \<not> has_capability g 8 9 (g_main_device g)
      \<longrightarrow> (\<exists>e. ggml_cuda_op_devices g c n32 fl n16 n8 = Inl e))"
  using op_devices_f8e4 [where c = c and g = g and ?n32.0 = n32 and fl = fl and ?n16.0 = n16
      and ?n8.0 = n8]
    op_devices_abort [where c = c and id' = id' and g = g and ?n32.0 = n32 and fl = fl
      and ?n16.0 = n16 and ?n8.0 = n8]
    op_devices_abort_main [where c = c and g = g and ?n32.0 = n32 and fl = fl and ?n16.0 = n16
      and ?n8.0 = n8]
  by blast

theorem C7_capability_fallback_witness:
  "has_capability two_gpus 8 9 0 \<and> has_capability two_gpus 8 9 1 = False
   \<and> ggml_cuda_op_devices two_gpus call_f8e4 True True True True
       = Inr [(0, ggml_cuda_op_mul_mat_cublas_f8e4_f32_wrapper),
              (1, ggml_cuda_op_mul_mat_cublas_f16_f32_wrapper)]
   \<and> (\<exists>e. ggml_cuda_op_devices old_gpus call_q True True True True = Inl e)
   \<and> (\<exists>e. ggml_cuda_op_devices (two_gpus\<lparr>g_main_device := 1\<rparr>) call_f8e4 True True True True
          = Inl e)"
proof -
  have c1: "has_capability two_gpus 8 9 0" "has_capability two_gpus 8 9 1 = False"
    by (simp_all add: two_gpus_def has_capability_def)
  have ev: "ggml_cuda_op_devices two_gpus call_f8e4 True True True True
       = Inr [(0, ggml_cuda_op_mul_mat_cublas_f8e4_f32_wrapper),
              (1, ggml_cuda_op_mul_mat_cublas_f16_f32_wrapper)]"
    by (simp add: two_gpus_def call_f8e4_def ggml_cuda_op_devices_def choose_requirements_def
        is_split_def lacks_capability_def upt_rec Let_def ggml_cuda_tensor_split_custom_def
        c_int_def MATRIX_SPLIT_DIVISIBLE_def signed_divide_int_def signed_modulo_int_def)
  have h1: "op_name call_f8e4 = ''ggml_cuda_mul_mat_cublas_f8e4''
            \<and> has_capability two_gpus 8 9 (g_main_device two_gpus)"
    by (simp add: two_gpus_def call_f8e4_def has_capability_def)
  have h2: "(op_name call_q = ''ggml_cuda_mul_mat_cublas_f16'' \<or> op_name call_q = ''ggml_cuda_mul_mat_q'')
        \<and> 1 < g_device_count old_gpus
        \<and> (src0_backend call_q = GGML_BACKEND_GPU_SPLIT \<or> 1 = g_main_device old_gpus)
        \<and> \<not> has_capability old_gpus 6 1 1"
    by (simp add: old_gpus_def two_gpus_def call_q_def has_capability_def)
  have h3: "op_name call_f8e4 = ''ggml_cuda_mul_mat_cublas_f8e4''
        \<and> g_main_device (two_gpus\<lparr>g_main_device := 1\<rparr>) < g_device_count (two_gpus\<lparr>g_main_device := 1\<rparr>)
        \<and> \<not> has_capability (two_gpus\<lparr>g_main_device := 1\<rparr>) 8 9
              (g_main_device (two_gpus\<lparr>g_main_device := 1\<rparr>))"
    by (simp add: two_gpus_def call_f8e4_def has_capability_def)
  from C7_capability_fallback [where c = call_q and id' = 1 and g = old_gpus and ?n32.0 = True
      and fl = True and ?n16.0 = True and ?n8.0 = True] h2
  have a2: "\<exists>e. ggml_cuda_op_devices old_gpus call_q True True True True = Inl e"
    by blast
  from C7_capability_fallback [where c = call_f8e4 and g = "two_gpus\<lparr>g_main_device := 1\<rparr>"
      and ?n32.0 = True and fl = True and ?n16.0 = True and ?n8.0 = True] h3
  have a3: "\<exists>e. ggml_cuda_op_devices (two_gpus\<lparr>g_main_device := 1\<rparr>) call_f8e4 True True True True
          = Inl e"
    by blast
  from c1 ev a2 a3 show ?thesis by simp
qed

section \<open>Properties of the quantization\<close>

lemma xor_lt_32: "a < 32 \<Longrightarrow> b < 32 \<Longrightarrow> a XOR b < (32::nat)"
proof -
  assume a: "a < 32" and b: "b < 32"
  have "take_bit 5 (a XOR b) = take_bit 5 a XOR take_bit 5 b"
    by (rule take_bit_xor)
  also have "\<dots> = a XOR b"
    using a b by (simp add: take_bit_nat_eq_self)
  finally have "a XOR b < 2 ^ 5"
    by (simp only: take_bit_nat_eq_self_iff)
  then show ?thesis
    by simp
qed

lemma float32_0 [simp]: "float32 0 = Some 0"
  by (simp add: float32_def round_to_format_def)

lemma float2half_0 [simp]: "float2half 0 = Some 0"
  by (simp add: float2half_def round_to_format_def)

lemma amax_loop_16:
  "amax_loop 16 a =
     (let s = (\<lambda>a m. map2 fmaxf a (shfl_xor_sync a m)) in s (s (s (s (s a 16) 8) 4) 2) 1)"
  by (simp add: Let_def)

lemma amax_sum_loop_16:
  "amax_sum_loop 16 (a, b) =
     (let s = (\<lambda>(a, b) m. (map2 fmaxf a (shfl_xor_sync a m), map2 fadd b (shfl_xor_sync b m)))
      in s (s (s (s (s (a, b) 16) 8) 4) 2) 1)"
  by (simp add: Let_def)

declare amax_loop.simps [simp del] amax_sum_loop.simps [simp del]

lemma shfl_xor_sync_replicate:
  assumes "m < 32"
  shows "shfl_xor_sync (replicate 32 v) m = replicate 32 v"
proof -
  have "\<And>lane. lane \<in> set [0..<32] \<Longrightarrow> replicate 32 v ! (lane XOR m) = v"
    using assms by (simp add: xor_lt_32)
  then have "map (\<lambda>lane. replicate 32 v ! (lane XOR m)) [0..<32] = map (\<lambda>lane. v) [0..<32]"
    by (rule map_cong [OF refl])
  then show ?thesis
    by (simp add: shfl_xor_sync_def map_replicate_const)
qed

lemma map2_replicate:
  "map2 f (replicate n a) (replicate n b) = replicate n (f a b)"
  by (simp add: zip_replicate)

lemma those_replicate_Some:
  "those (replicate n (Some v)) = Some (replicate n v)"
  by (induction n) simp_all

lemma fadd_0: "fadd (Some 0) (Some 0) = Some 0"
  by (simp add: fadd_def)

lemma scale_and_code_0: "scale_and_code 0 0 = Some (0, 0)"
  by (simp add: scale_and_code_def fdiv_def)

lemma amax_loop_zero: "amax_loop 16 (replicate 32 0) = replicate 32 0"
  by (simp add: amax_loop_16 Let_def shfl_xor_sync_replicate map2_replicate fmaxf_def)

lemma amax_sum_loop_zero:
  "amax_sum_loop 16 (replicate 32 0, replicate 32 (Some 0)) = (replicate 32 0, replicate 32 (Some 0))"
  by (simp add: amax_sum_loop_16 Let_def shfl_xor_sync_replicate map2_replicate fmaxf_def fadd_0)

lemma quantize_q8_0_zero:
  "quantize_q8_0 (replicate 32 0) = Some \<lparr>q8_0_d = 0, q8_0_qs = replicate 32 0\<rparr>"
  by (simp add: quantize_q8_0_def fabsf_def amax_loop_zero map2_replicate scale_and_code_0
      those_replicate_Some)

lemma quantize_q8_1_zero:
  "quantize_q8_1 (replicate 32 0) = Some \<lparr>q8_1_ds = (0, 0), q8_1_qs = replicate 32 0\<rparr>"
  by (simp add: quantize_q8_1_def fabsf_def amax_sum_loop_zero map2_replicate scale_and_code_0
      those_replicate_Some)

lemma dequantize_q8_0_zero:
  assumes "iqs < 31"
  shows "dequantize_q8_0 [\<lparr>q8_0_d = 0, q8_0_qs = replicate 32 0\<rparr>] 0 iqs = Some (0, 0)"
  using assms by (simp add: dequantize_q8_0_def fmul_def)

text \<open>
  Claim C8. The block of 32 zeros is encoded by \<^verbatim>\<open>quantize_q8_0\<close> as the scale \<open>0\<close> with
  32 codes \<open>0\<close>, and by \<^verbatim>\<open>quantize_q8_1\<close> as the scale \<open>0\<close>, the sum \<open>0\<close> and 32 codes
  \<open>0\<close>. A thread whose \<^verbatim>\<open>amax\<close> is zero gets the code \<open>0\<close> whatever its value, without the
  division by the scale (which is a division by zero, \<open>None\<close> in the model). And
  \<^verbatim>\<open>dequantize_q8_0\<close> returns \<open>0\<close> for both elements at every position of such a block.
\<close>

theorem C8_zero_block:
  "quantize_q8_0 (replicate 32 0) = Some \<lparr>q8_0_d = 0, q8_0_qs = replicate 32 0\<rparr>
   \<and> quantize_q8_1 (replicate 32 0) = Some \<lparr>q8_1_ds = (0, 0), q8_1_qs = replicate 32 0\<rparr>
   \<and> (\<forall>xi. scale_and_code xi 0 = Some (0, 0))
   \<and> (ib < length x \<and> x ! ib = \<lparr>q8_0_d = 0, q8_0_qs = replicate 32 0\<rparr> \<and> iqs < 31
        \<longrightarrow> dequantize_q8_0 x ib iqs = Some (0, 0))"
  by (simp add: quantize_q8_0_zero quantize_q8_1_zero scale_and_code_def fdiv_def
      dequantize_q8_0_def fmul_def)

theorem C8_zero_block_witness:
  "dequantize_q8_0 [\<lparr>q8_0_d = 0, q8_0_qs = replicate 32 0\<rparr>] 0 0 = Some (0, 0)
   \<and> dequantize_q8_0 [\<lparr>q8_0_d = 0, q8_0_qs = replicate 32 0\<rparr>] 0 30 = Some (0, 0)
   \<and> quantize_q8_0 (replicate 32 0) = Some \<lparr>q8_0_d = 0, q8_0_qs = replicate 32 0\<rparr>"
  using C8_zero_block [where x = "[\<lparr>q8_0_d = 0, q8_0_qs = replicate 32 0\<rparr>]" and ib = 0 and iqs = 0]
    C8_zero_block [where x = "[\<lparr>q8_0_d = 0, q8_0_qs = replicate 32 0\<rparr>]" and ib = 0 and iqs = 30]
  by simp

subsection \<open>The reduction over the lanes\<close>

lemma length_shfl_xor_sync [simp]: "length (shfl_xor_sync v m) = 32"
  by (simp add: shfl_xor_sync_def)

lemma nth_shfl_xor_sync: "i < 32 \<Longrightarrow> shfl_xor_sync v m ! i = v ! (i XOR m)"
proof -
  assume i: "i < 32"
  then have "map (\<lambda>lane. v ! (lane XOR m)) [0..<32] ! i = v ! (([0..<32] ! i) XOR m)"
    by (intro nth_map) simp
  also have "[0..<32] ! i = i"
    using i by (metis add_0 nth_upt)
  finally show ?thesis
    by (simp add: shfl_xor_sync_def)
qed

lemma length_fmaxf_round [simp]: "length a = 32 \<Longrightarrow> length (fmaxf_round a m) = 32"
  by (simp add: fmaxf_round_def)

lemma nth_fmaxf_round:
  "length a = 32 \<Longrightarrow> i < 32 \<Longrightarrow> fmaxf_round a m ! i = max (a ! i) (a ! (i XOR m))"
  by (simp add: fmaxf_round_def fmaxf_def nth_shfl_xor_sync)

lemma amax_loop_rounds:
  "amax_loop 16 a =
     fmaxf_round (fmaxf_round (fmaxf_round (fmaxf_round (fmaxf_round a 16) 8) 4) 2) 1"
  by (simp add: amax_loop_16 Let_def fmaxf_round_def)

lemma fmaxf_round_mem:
  assumes "length a = 32" "m < 32" "i < 32"
  shows "fmaxf_round a m ! i \<in> set a"
proof -
  have "i XOR m < 32" using assms by (simp add: xor_lt_32)
  then have "a ! i \<in> set a" "a ! (i XOR m) \<in> set a"
    using assms by simp_all
  then show ?thesis
    using assms by (simp add: nth_fmaxf_round max_def)
qed

lemma fmaxf_round_set:
  assumes "length a = 32" "m < 32"
  shows "set (fmaxf_round a m) \<subseteq> set a"
proof
  fix v assume "v \<in> set (fmaxf_round a m)"
  then obtain i where "i < 32" "v = fmaxf_round a m ! i"
    using assms by (metis in_set_conv_nth length_fmaxf_round)
  then show "v \<in> set a"
    using fmaxf_round_mem [OF assms] by simp
qed

lemma covers_init: "covers a {0} a"
  by (simp add: covers_def)

lemma covers_round:
  assumes "covers a C s" "length s = 32" "m < 32"
  shows "covers a (C \<union> (\<lambda>c. m XOR c) ` C) (fmaxf_round s m)"
  unfolding covers_def
proof (intro allI impI ballI)
  fix i c assume i: "i < (32::nat)" and c: "c \<in> C \<union> (\<lambda>c. m XOR c) ` C"
  have im: "i XOR m < 32" using i assms(3) by (simp add: xor_lt_32)
  have nth: "fmaxf_round s m ! i = max (s ! i) (s ! (i XOR m))"
    using assms(2) i by (simp add: nth_fmaxf_round)
  from c show "c < 32 \<and> a ! (i XOR c) \<le> fmaxf_round s m ! i"
  proof
    assume "c \<in> C"
    with assms(1) i have "c < 32" "a ! (i XOR c) \<le> s ! i"
      by (auto simp: covers_def)
    then show ?thesis using nth by simp
  next
    assume "c \<in> (\<lambda>c. m XOR c) ` C"
    then obtain c' where c': "c' \<in> C" "c = m XOR c'" by auto
    with assms(1) im have "c' < 32" "a ! ((i XOR m) XOR c') \<le> s ! (i XOR m)"
      by (auto simp: covers_def)
    moreover have "(i XOR m) XOR c' = i XOR c"
      using c'(2) by (simp add: xor.assoc)
    ultimately show ?thesis
      using nth c'(2) assms(3) by (simp add: xor_lt_32)
  qed
qed


lemma all_lanes: "c < 32 \<Longrightarrow> c \<in> set [0..<32]"
  by simp

lemma covers_mono: "covers a C s \<Longrightarrow> C' \<subseteq> C \<Longrightarrow> covers a C' s"
  by (auto simp: covers_def)

lemma covers_all:
  assumes "length a = 32"
  shows "covers a {..<32} (amax_loop 16 a)"
proof -
  let ?s1 = "fmaxf_round a 16"
  let ?s2 = "fmaxf_round ?s1 8"
  let ?s3 = "fmaxf_round ?s2 4"
  let ?s4 = "fmaxf_round ?s3 2"
  let ?s5 = "fmaxf_round ?s4 1"
  have c1: "covers a {0, 16} ?s1"
    by (rule covers_mono [OF covers_round [OF covers_init assms, of 16]]) simp_all
  have c2: "covers a {0, 16, 8, 24} ?s2"
    by (rule covers_mono [OF covers_round [OF c1, of 8]]) (simp_all add: assms)
  have c3: "covers a {0, 16, 8, 24, 4, 20, 12, 28} ?s3"
    by (rule covers_mono [OF covers_round [OF c2, of 4]]) (simp_all add: assms)
  have c4: "covers a {0, 16, 8, 24, 4, 20, 12, 28, 2, 18, 10, 26, 6, 22, 14, 30} ?s4"
    by (rule covers_mono [OF covers_round [OF c3, of 2]]) (simp_all add: assms)
  have c5: "covers a ({0, 16, 8, 24, 4, 20, 12, 28, 2, 18, 10, 26, 6, 22, 14, 30}
              \<union> {1, 17, 9, 25, 5, 21, 13, 29, 3, 19, 11, 27, 7, 23, 15, 31}) ?s5"
    by (rule covers_mono [OF covers_round [OF c4, of 1]]) (simp_all add: assms)
  have "{..<32::nat} \<subseteq> set [0..<32]"
    by auto
  also have "set [0..<32] \<subseteq> {0, 16, 8, 24, 4, 20, 12, 28, 2, 18, 10, 26, 6, 22, 14, 30}
              \<union> {1, 17, 9, 25, 5, 21, 13, 29, 3, 19, 11, 27, 7, 23, 15, 31::nat}"
    by (simp add: upt_rec)
  finally have sub: "{..<32::nat} \<subseteq> {0, 16, 8, 24, 4, 20, 12, 28, 2, 18, 10, 26, 6, 22, 14, 30}
              \<union> {1, 17, 9, 25, 5, 21, 13, 29, 3, 19, 11, 27, 7, 23, 15, 31}" .
  show ?thesis
    unfolding amax_loop_rounds by (rule covers_mono [OF c5 sub])
qed

lemma amax_loop_Max:
  assumes "length a = 32" "i < 32"
  shows "amax_loop 16 a ! i = Max (set a)"
proof (rule sym, rule Max_eqI)
  show "finite (set a)" by simp
next
  fix y assume "y \<in> set a"
  then obtain j where j: "j < 32" "y = a ! j"
    using assms(1) by (metis in_set_conv_nth)
  have "i XOR j < 32" "i XOR (i XOR j) = j"
    using assms(2) j(1) by (simp_all add: xor_lt_32 flip: xor.assoc)
  with covers_all [OF assms(1)] assms(2) have "a ! j \<le> amax_loop 16 a ! i"
    unfolding covers_def by (metis lessThan_iff)
  with j show "y \<le> amax_loop 16 a ! i" by simp
next
  have "set (amax_loop 16 a) \<subseteq> set a"
  proof -
    have r: "\<And>s m. length s = 32 \<Longrightarrow> set s \<subseteq> set a \<Longrightarrow> m < 32 \<Longrightarrow>
               set (fmaxf_round s m) \<subseteq> set a"
      using fmaxf_round_set by blast
    show ?thesis
      unfolding amax_loop_rounds
      by (intro r) (simp_all add: assms(1))
  qed
  moreover have "length (amax_loop 16 a) = 32"
    using assms(1) by (simp add: amax_loop_rounds)
  ultimately show "amax_loop 16 a ! i \<in> set a"
    using assms(2) by (metis nth_mem subsetD)
qed

lemma amax_loop_replicate:
  assumes "length a = 32"
  shows "amax_loop 16 a = replicate 32 (Max (set a))"
proof (rule nth_equalityI)
  show "length (amax_loop 16 a) = length (replicate 32 (Max (set a)))"
    using assms by (simp add: amax_loop_rounds)
next
  fix i assume "i < length (amax_loop 16 a)"
  then have "i < 32" using assms by (simp add: amax_loop_rounds)
  then show "amax_loop 16 a ! i = replicate 32 (Max (set a)) ! i"
    using amax_loop_Max [OF assms] by simp
qed

subsection \<open>Rounding to \<^verbatim>\<open>float\<close> and \<^verbatim>\<open>half\<close>\<close>

lemma float32_eval:
  assumes "2 powr of_int k \<le> \<bar>x\<bar>" "\<bar>x\<bar> < 2 powr of_int (k + 1)"
  shows "float32 x =
           (let e = max k (- 126) - 23;
                y = of_int (round_ties_even (x / 2 powr of_int e)) * 2 powr of_int e
            in if \<bar>y\<bar> < 2 powr 128 then Some y else None)"
  unfolding float32_def using round_to_format_eval [OF assms, of 24 "- 126" 127] by simp

lemma float2half_eval:
  assumes "2 powr of_int k \<le> \<bar>x\<bar>" "\<bar>x\<bar> < 2 powr of_int (k + 1)"
  shows "float2half x =
           (let e = max k (- 14) - 10;
                y = of_int (round_ties_even (x / 2 powr of_int e)) * 2 powr of_int e
            in if \<bar>y\<bar> < 2 powr 16 then Some y else None)"
  unfolding float2half_def using round_to_format_eval [OF assms, of 11 "- 14" 15] by simp

lemma float32_c1:
  "float32 (4099 / 4096) = Some (4099 / 4096)"
  "float32 127 = Some 127"
  "float32 (251 / 2) = Some (251 / 2)"
  "float32 (520573 / 4096) = Some (520573 / 4096)"
  "float32 (1028849 / 8192) = Some (1028849 / 8192)"
  "float32 (130175 / 1024) = Some (130175 / 1024)"
  "float32 (64575 / 512) = Some (64575 / 512)"
        apply (subst float32_eval [where k = 0]; simp add: round_ties_even_def powr_minus)
       apply (subst float32_eval [where k = 6]; simp add: round_ties_even_def powr_minus)
      apply (subst float32_eval [where k = 6]; simp add: round_ties_even_def powr_minus)
     apply (subst float32_eval [where k = 6]; simp add: round_ties_even_def powr_minus)
    apply (subst float32_eval [where k = 6]; simp add: round_ties_even_def powr_minus)
   apply (subst float32_eval [where k = 6]; simp add: round_ties_even_def powr_minus)
  apply (subst float32_eval [where k = 6]; simp add: round_ties_even_def powr_minus)
  done

lemma float2half_c1: "float2half (4099 / 4096) = Some (1025 / 1024)"
  by (subst float2half_eval [where k = 0]) (simp_all add: round_ties_even_def powr_minus)

lemma scale_and_code_c1:
  "scale_and_code (520573 / 4096) (520573 / 4096) = Some (4099 / 4096, 127)"
  "scale_and_code (1028849 / 8192) (520573 / 4096) = Some (4099 / 4096, 126)"
  "scale_and_code 0 (520573 / 4096) = Some (4099 / 4096, 0)"
  by (simp_all add: scale_and_code_def fdiv_def float32_c1 roundf_def int8_t_def)

lemma block_amax_c1: "block_amax block_c1 = 520573 / 4096"
  by (simp add: block_amax_def block_c1_def fabsf_def)

lemma length_block_c1: "length block_c1 = 32"
  by (simp add: block_c1_def)

lemma replicate_32: "replicate 32 v = [v, v] @ replicate 30 v"
proof -
  have "replicate 32 v = replicate (2 + 30) v" by simp
  also have "\<dots> = replicate 2 v @ replicate 30 v" by (rule replicate_add)
  also have "replicate 2 v = [v, v]" by (simp add: numeral_2_eq_2)
  finally show ?thesis .
qed

lemma quantize_q8_0_c1:
  "quantize_q8_0 block_c1 = Some \<lparr>q8_0_d = 1025 / 1024, q8_0_qs = 127 # 126 # replicate 30 0\<rparr>"
proof -
  have "amax_loop 16 (map fabsf block_c1) = replicate 32 (520573 / 4096)"
    using amax_loop_replicate [of "map fabsf block_c1"] block_amax_c1 length_block_c1
    by (simp add: block_amax_def)
  also have "\<dots> = [520573 / 4096, 520573 / 4096] @ replicate 30 (520573 / 4096)"
    by (rule replicate_32)
  finally have am: "amax_loop 16 (map fabsf block_c1)
                      = [520573 / 4096, 520573 / 4096] @ replicate 30 (520573 / 4096)" .
  have "those (map2 scale_and_code block_c1 (amax_loop 16 (map fabsf block_c1)))
          = Some ([(4099 / 4096, 127), (4099 / 4096, 126)] @ replicate 30 (4099 / 4096, 0))"
    unfolding am
    by (simp add: block_c1_def zip_replicate scale_and_code_c1 those_replicate_Some)
  then show ?thesis
    by (simp add: quantize_q8_0_def float2half_c1)
qed

lemma dequantize_q8_0_c1:
  "dequantize_q8_0 [\<lparr>q8_0_d = 1025 / 1024, q8_0_qs = 127 # 126 # replicate 30 0\<rparr>] 0 0
     = Some (130175 / 1024, 64575 / 512)"
  by (simp add: dequantize_q8_0_def fmul_def float32_c1)

lemma float32_error:
  assumes "float32 x = Some y" "1 / 2 ^ 126 \<le> B" "\<bar>x\<bar> \<le> B"
  shows "\<bar>y - x\<bar> \<le> B / 2 ^ 24"
proof -
  have "\<bar>y - x\<bar> \<le> max \<bar>x\<bar> (2 powr of_int (- 126)) * 2 powr (- real 24)"
    using assms(1) unfolding float32_def by (rule round_to_format_error)
  also have "\<dots> = max \<bar>x\<bar> (1 / 2 ^ 126) / 2 ^ 24"
    by (simp add: powr_minus)
  also have "\<dots> \<le> B / 2 ^ 24"
    using assms(2,3) by (intro divide_right_mono) simp_all
  finally show ?thesis .
qed

lemma float32_Some:
  assumes "\<bar>x\<bar> \<le> 2 ^ 100"
  shows "\<exists>y. float32 x = Some y"
  unfolding float32_def
proof (rule round_to_format_Some)
  have "max \<bar>x\<bar> (2 powr real_of_int (- 126)) \<le> 2 ^ 100"
    using assms by (simp add: powr_minus)
  then have "max \<bar>x\<bar> (2 powr real_of_int (- 126)) * 2 powr - real 24 \<le> 2 ^ 100 * 1"
    by (intro mult_mono) (simp_all add: powr_minus)
  with assms
  show "\<bar>x\<bar> + max \<bar>x\<bar> (2 powr real_of_int (- 126)) * 2 powr - real 24
          < 2 powr real_of_int (127 + 1)"
    by simp
qed

lemma float2half_error:
  assumes "float2half x = Some y" "1 / 2 ^ 14 \<le> B" "\<bar>x\<bar> \<le> B"
  shows "\<bar>y - x\<bar> \<le> B / 2 ^ 11"
proof -
  have "\<bar>y - x\<bar> \<le> max \<bar>x\<bar> (2 powr of_int (- 14)) * 2 powr (- real 11)"
    using assms(1) unfolding float2half_def by (rule round_to_format_error)
  also have "\<dots> = max \<bar>x\<bar> (1 / 2 ^ 14) / 2 ^ 11"
    by (simp add: powr_minus)
  also have "\<dots> \<le> B / 2 ^ 11"
    using assms(2,3) by (intro divide_right_mono) simp_all
  finally show ?thesis .
qed

lemma float2half_Some:
  assumes "\<bar>x\<bar> \<le> 65504 + 1 / 100"
  shows "\<exists>y. float2half x = Some y"
  unfolding float2half_def
proof (rule round_to_format_Some)
  have "max \<bar>x\<bar> (2 powr real_of_int (- 14)) \<le> 65504 + 1 / 100"
    using assms by (simp add: powr_minus)
  then have "max \<bar>x\<bar> (2 powr real_of_int (- 14)) * 2 powr - real 11
               \<le> (65504 + 1 / 100) * (1 / 2048)"
    by (intro mult_mono) (simp_all add: powr_minus)
  with assms
  show "\<bar>x\<bar> + max \<bar>x\<bar> (2 powr real_of_int (- 14)) * 2 powr - real 11
          < 2 powr real_of_int (15 + 1)"
    by simp
qed

lemma roundf_int: "\<exists>n. roundf t = of_int n \<and> \<bar>of_int n - t\<bar> \<le> 1/2"
proof (cases "0 \<le> t")
  case True
  have "\<bar>of_int \<lfloor>t + 1/2\<rfloor> - t\<bar> \<le> 1/2"
    by linarith
  with True show ?thesis
    unfolding roundf_def by auto
next
  case False
  have "\<bar>of_int (- \<lfloor>- t + 1/2\<rfloor>) - t\<bar> \<le> 1/2"
    by (simp add: abs_if) linarith
  with False show ?thesis
    unfolding roundf_def by (intro exI [of _ "- \<lfloor>- t + 1/2\<rfloor>"]) simp
qed

lemma int8_t_of_int: "- 128 \<le> n \<Longrightarrow> n \<le> 127 \<Longrightarrow> int8_t (of_int n) = Some n"
  by (simp add: int8_t_def)

lemma those_all_Some:
  "(\<forall>i<length l. \<exists>v. l ! i = Some v) \<Longrightarrow>
     \<exists>vs. those l = Some vs \<and> length vs = length l \<and> (\<forall>i<length l. l ! i = Some (vs ! i))"
proof (induction l)
  case Nil
  then show ?case by simp
next
  case (Cons a l)
  from Cons.prems have "\<exists>v. (a # l) ! 0 = Some v" by blast
  then obtain v where v: "a = Some v" by auto
  have "\<forall>i<length l. \<exists>v. l ! i = Some v"
  proof (intro allI impI)
    fix i assume "i < length l"
    then have "Suc i < length (a # l)" by simp
    with Cons.prems have "\<exists>v. (a # l) ! Suc i = Some v" by blast
    then show "\<exists>v. l ! i = Some v" by simp
  qed
  from Cons.IH [OF this] obtain vs where vs: "those l = Some vs" "length vs = length l"
    "\<forall>i<length l. l ! i = Some (vs ! i)" by blast
  have "\<forall>i<length (a # l). (a # l) ! i = Some ((v # vs) ! i)"
  proof (intro allI impI)
    fix i assume "i < length (a # l)"
    then show "(a # l) ! i = Some ((v # vs) ! i)"
      using v vs(3) by (cases i) simp_all
  qed
  with v vs(1,2) show ?case
    by (intro exI [of _ "v # vs"]) simp
qed

subsection \<open>Encoding and decoding a block\<close>

lemma scale_ok:
  assumes "1 / 2 ^ 14 \<le> D" "D \<le> 65504"
  shows "\<exists>d. float32 D = Some d \<and> \<bar>d - D\<bar> \<le> D / 2 ^ 24"
proof -
  have "\<bar>D\<bar> \<le> 2 ^ 100" using assms by simp
  from float32_Some [OF this] obtain d where d: "float32 D = Some d" by blast
  have "\<bar>d - D\<bar> \<le> D / 2 ^ 24"
    using assms by (intro float32_error [OF d]) simp_all
  with d show ?thesis by blast
qed

lemma scale_bounds:
  assumes "\<bar>d - D\<bar> \<le> D / 2 ^ 24"
  shows "D * (1 - 1 / 2 ^ 24) \<le> (d::real) \<and> d \<le> D * (1 + 1 / 2 ^ 24)"
proof -
  from assms have "\<bar>d - D\<bar> \<le> D / 16777216" by simp
  then have "D - D / 16777216 \<le> d" "d \<le> D + D / 16777216" by linarith+
  moreover have "D * (1 - 1 / 2 ^ 24) = D - D / 16777216"
    "D * (1 + 1 / 2 ^ 24) = D + D / 16777216"
    by (simp_all add: algebra_simps)
  ultimately show ?thesis by (simp only:) 
qed

lemma code_ok:
  assumes D: "1 / 2 ^ 14 \<le> D" and d: "\<bar>d - D\<bar> \<le> D / 2 ^ 24" and x: "\<bar>x\<bar> \<le> 127 * D"
  shows "\<exists>t q. float32 (x / d) = Some t \<and> int8_t (roundf t) = Some q \<and> \<bar>q\<bar> \<le> 127
           \<and> \<bar>of_int q * d - x\<bar> \<le> d * (1 / 2 + 1 / 2 ^ 17)"
proof -
  have D0: "0 < D" using D by (smt (verit) divide_pos_pos zero_less_power)
  have dlo: "D * (1 - 1 / 2 ^ 24) \<le> d"
    using scale_bounds [OF d] by simp
  have d0: "0 < d"
  proof -
    have "0 < D * (1 - 1 / 2 ^ 24)" using D0 by simp
    with dlo show ?thesis by linarith
  qed
  define r where "r = x / d"
  have "127 * D \<le> (127 + 1 / 65536) * (D * (1 - 1 / 2 ^ 24))"
    using D0 by simp
  also have "\<dots> \<le> (127 + 1 / 65536) * d"
    using dlo by (intro mult_left_mono) simp_all
  finally have "\<bar>x\<bar> \<le> (127 + 1 / 65536) * d"
    using x by linarith
  then have "\<bar>x\<bar> / d \<le> 127 + 1 / 65536"
    by (simp only: pos_divide_le_eq [OF d0])
  then have xd: "\<bar>r\<bar> \<le> 127 + 1 / 65536"
    unfolding r_def by (simp only: abs_div_pos [OF d0])
  moreover have "(127 + 1 / 65536 :: real) \<le> 2 ^ 100" by simp
  ultimately have "\<bar>r\<bar> \<le> 2 ^ 100" by linarith
  from float32_Some [OF this] obtain t where t: "float32 r = Some t" by blast
  have "\<bar>r\<bar> \<le> 128" using xd by linarith
  then have "\<bar>t - r\<bar> \<le> 128 / 2 ^ 24"
    by (rule float32_error [OF t, rotated]) simp
  then have te: "\<bar>t - r\<bar> \<le> 1 / 131072" by simp
  from roundf_int [of t] obtain n where n: "roundf t = of_int n" "\<bar>of_int n - t\<bar> \<le> 1 / 2"
    by blast
  have nx: "\<bar>of_int n - r\<bar> \<le> 1 / 2 + 1 / 131072"
    using n(2) te by linarith
  have "\<bar>real_of_int n\<bar> < 128"
    using nx xd by linarith
  then have "\<bar>n\<bar> < 128" by linarith
  then have n127: "\<bar>n\<bar> \<le> 127" by simp
  then have i8: "int8_t (roundf t) = Some n"
    unfolding n(1) by (intro int8_t_of_int) simp_all
  have "of_int n * d - x = (of_int n - r) * d"
    using d0 by (simp add: algebra_simps r_def)
  then have "\<bar>of_int n * d - x\<bar> = \<bar>of_int n - r\<bar> * d"
    using d0 by (simp add: abs_mult)
  also have "\<dots> \<le> (1 / 2 + 1 / 131072) * d"
    using nx d0 by (intro mult_right_mono) simp_all
  finally have "\<bar>of_int n * d - x\<bar> \<le> d * (1 / 2 + 1 / 2 ^ 17)"
    by (simp add: mult.commute)
  with t i8 n127 show ?thesis unfolding r_def by blast
qed

lemma decode_ok:
  assumes D: "1 / 2 ^ 14 \<le> D" "D \<le> 65504" and d: "\<bar>d - D\<bar> \<le> D / 2 ^ 24"
    and h: "float2half d = Some d'" and q: "\<bar>q\<bar> \<le> 127"
    and e: "\<bar>of_int q * d - x\<bar> \<le> d * (1 / 2 + 1 / 2 ^ 17)"
  shows "\<exists>v. fmul (of_int q) d' = Some v \<and> \<bar>v - x\<bar> \<le> 9 / 16 * D"
proof -
  have D0: "0 < D" using D(1) by (smt (verit) divide_pos_pos zero_less_power)
  have dhi: "d \<le> D * (1 + 1 / 2 ^ 24)" and dlo: "D * (1 - 1 / 2 ^ 24) \<le> d"
    using scale_bounds [OF d] by simp_all
  have d0: "0 < d"
  proof -
    have "0 < D * (1 - 1 / 2 ^ 24)" using D0 by simp
    with dlo show ?thesis by linarith
  qed
  have he: "\<bar>d' - d\<bar> \<le> D * (1 + 1 / 2 ^ 24) / 2 ^ 11"
  proof (rule float2half_error [OF h])
    show "1 / 2 ^ 14 \<le> D * (1 + 1 / 2 ^ 24)"
      using D(1) D0 by (simp add: algebra_simps)
    show "\<bar>d\<bar> \<le> D * (1 + 1 / 2 ^ 24)"
      using dhi d0 by simp
  qed
  have "\<bar>d'\<bar> \<le> \<bar>d\<bar> + \<bar>d' - d\<bar>" by simp
  also have "\<dots> \<le> D * (1 + 1 / 2 ^ 24) + D * (1 + 1 / 2 ^ 24) / 2 ^ 11"
    using dhi d0 he by simp
  also have "\<dots> \<le> 2 * D"
    using D0 by simp
  finally have d'2: "\<bar>d'\<bar> \<le> 2 * D" .
  have qr: "\<bar>real_of_int q\<bar> \<le> 127"
    using q by linarith
  have "\<bar>of_int q * d'\<bar> = \<bar>real_of_int q\<bar> * \<bar>d'\<bar>"
    by (simp add: abs_mult)
  also have "\<dots> \<le> 127 * (2 * D)"
    using qr d'2 by (intro mult_mono) simp_all
  finally have qd: "\<bar>of_int q * d'\<bar> \<le> 254 * D" by simp
  then have "\<bar>of_int q * d'\<bar> \<le> 2 ^ 100"
    using D(2) by simp
  from float32_Some [OF this] obtain v where v: "float32 (of_int q * d') = Some v" by blast
  have ve: "\<bar>v - of_int q * d'\<bar> \<le> 254 * D / 2 ^ 24"
  proof (rule float32_error [OF v _ qd])
    show "1 / 2 ^ 126 \<le> 254 * D" using D(1) by simp
  qed
  have "\<bar>of_int q * d' - of_int q * d\<bar> = \<bar>real_of_int q\<bar> * \<bar>d' - d\<bar>"
    by (simp add: abs_mult flip: right_diff_distrib)
  also have "\<dots> \<le> 127 * (D * (1 + 1 / 2 ^ 24) / 2 ^ 11)"
    using qr he by (intro mult_mono) simp_all
  finally have ds: "\<bar>of_int q * d' - of_int q * d\<bar> \<le> 127 * (D * (1 + 1 / 2 ^ 24) / 2 ^ 11)" .
  have "d * (1 / 2 + 1 / 2 ^ 17) \<le> D * (1 + 1 / 2 ^ 24) * (1 / 2 + 1 / 2 ^ 17)"
    using dhi by (intro mult_right_mono) simp_all
  with e have e': "\<bar>of_int q * d - x\<bar> \<le> D * (1 + 1 / 2 ^ 24) * (1 / 2 + 1 / 2 ^ 17)"
    by linarith
  have "\<bar>v - x\<bar> \<le> \<bar>v - of_int q * d'\<bar> + \<bar>of_int q * d' - of_int q * d\<bar> + \<bar>of_int q * d - x\<bar>"
    by linarith
  also have "\<dots> \<le> 254 * D / 2 ^ 24 + 127 * (D * (1 + 1 / 2 ^ 24) / 2 ^ 11)
                    + D * (1 + 1 / 2 ^ 24) * (1 / 2 + 1 / 2 ^ 17)"
    using ve ds e' by linarith
  also have "\<dots> \<le> 9 / 16 * D"
    using D0 by (simp add: algebra_simps)
  finally have "\<bar>v - x\<bar> \<le> 9 / 16 * D" .
  with v show ?thesis by (auto simp: fmul_def)
qed

lemma block_amax_ge:
  assumes "i < length xi"
  shows "\<bar>xi ! i\<bar> \<le> block_amax xi"
  unfolding block_amax_def using assms by (intro Max_ge) (auto simp: fabsf_def)

lemma scale_pos:
  assumes "1 / 2 ^ 14 \<le> (D::real)" "\<bar>d - D\<bar> \<le> D / 2 ^ 24"
  shows "0 < d"
proof -
  have "0 < D" using assms(1) by (smt (verit) divide_pos_pos zero_less_power)
  then have "0 < D * (1 - 1 / 2 ^ 24)" by simp
  with scale_bounds [OF assms(2)] show ?thesis by linarith
qed

lemma scale_and_code_ok:
  assumes D: "1 / 2 ^ 14 \<le> A / 127" "A / 127 \<le> 65504"
    and d: "float32 (A / 127) = Some d" "\<bar>d - A / 127\<bar> \<le> A / 127 / 2 ^ 24"
    and x: "\<bar>x\<bar> \<le> A"
  shows "\<exists>q. scale_and_code x A = Some (d, q) \<and> \<bar>q\<bar> \<le> 127
           \<and> \<bar>of_int q * d - x\<bar> \<le> d * (1 / 2 + 1 / 2 ^ 17)"
proof -
  have A0: "A \<noteq> 0" using D(1) by auto
  have "\<bar>x\<bar> \<le> 127 * (A / 127)" using x by simp
  from code_ok [OF D(1) d(2) this] obtain t q where
    "float32 (x / d) = Some t" "int8_t (roundf t) = Some q" "\<bar>q\<bar> \<le> 127"
    "\<bar>of_int q * d - x\<bar> \<le> d * (1 / 2 + 1 / 2 ^ 17)"
    by blast
  moreover have "d \<noteq> 0"
    using scale_pos [OF D(1) d(2)] by simp
  ultimately show ?thesis
    using d(1) A0 by (simp add: scale_and_code_def fdiv_def)
qed

lemma quantize_q8_0_round_trip:
  assumes len: "length xi = 32"
    and lo: "127 / 2 ^ 14 \<le> block_amax xi" and hi: "block_amax xi \<le> 127 * 65504"
    and iqs: "iqs < 32"
  shows "\<exists>b v. quantize_q8_0 xi = Some b \<and> length (q8_0_qs b) = 32
           \<and> fmul (of_int (q8_0_qs b ! iqs)) (q8_0_d b) = Some v
           \<and> \<bar>v - xi ! iqs\<bar> \<le> 9 / 16 * (block_amax xi / 127)"
proof -
  define A where "A = block_amax xi"
  define D where "D = A / 127"
  have D: "1 / 2 ^ 14 \<le> D" "D \<le> 65504"
    using lo hi by (simp_all add: D_def A_def)
  from scale_ok [OF D] obtain d where d: "float32 D = Some d" "\<bar>d - D\<bar> \<le> D / 2 ^ 24"
    by blast
  have am: "amax_loop 16 (map fabsf xi) = replicate 32 A"
    using amax_loop_replicate [of "map fabsf xi"] len by (simp add: A_def block_amax_def)
  let ?l = "map2 scale_and_code xi (replicate 32 A)"
  have ll: "length ?l = 32" using len by simp
  have lane: "\<exists>q. ?l ! i = Some (d, q) \<and> \<bar>q\<bar> \<le> 127
           \<and> \<bar>of_int q * d - xi ! i\<bar> \<le> d * (1 / 2 + 1 / 2 ^ 17)" if "i < 32" for i
  proof -
    have "\<bar>xi ! i\<bar> \<le> A"
      unfolding A_def using that len by (intro block_amax_ge) simp
    from scale_and_code_ok [OF D [unfolded D_def] d [unfolded D_def] this]
    show ?thesis using that len by simp
  qed
  then have "\<forall>i<length ?l. \<exists>v. ?l ! i = Some v"
    using ll by (metis (no_types, lifting))
  from those_all_Some [OF this] obtain dq where dq: "those ?l = Some dq" "length dq = 32"
    "\<forall>i<32. ?l ! i = Some (dq ! i)"
    using ll by auto
  have dq_lane: "fst (dq ! i) = d \<and> \<bar>snd (dq ! i)\<bar> \<le> 127
           \<and> \<bar>of_int (snd (dq ! i)) * d - xi ! i\<bar> \<le> d * (1 / 2 + 1 / 2 ^ 17)" if "i < 32" for i
    using lane [OF that] dq(3) that by auto
  have "\<bar>d\<bar> \<le> 65504 + 1 / 100"
  proof -
    have "d \<le> D * (1 + 1 / 2 ^ 24)" "0 \<le> d"
      using scale_bounds [OF d(2)] scale_pos [OF D(1) d(2)] by simp_all
    moreover have "D * (1 + 1 / 2 ^ 24) \<le> 65504 * (1 + 1 / 2 ^ 24)"
      using D(2) by (intro mult_right_mono) simp_all
    ultimately show ?thesis by simp
  qed
  from float2half_Some [OF this] obtain d' where d': "float2half d = Some d'" by blast
  define b where "b = \<lparr>q8_0_d = d', q8_0_qs = map snd dq\<rparr>"
  have q: "quantize_q8_0 xi = Some b"
    using dq(1) d' dq_lane [of 0] by (simp add: quantize_q8_0_def am b_def)
  from dq_lane [OF iqs] have l: "\<bar>snd (dq ! iqs)\<bar> \<le> 127"
    "\<bar>of_int (snd (dq ! iqs)) * d - xi ! iqs\<bar> \<le> d * (1 / 2 + 1 / 2 ^ 17)"
    by simp_all
  from decode_ok [OF D d(2) d' l] obtain v where
    v: "fmul (of_int (snd (dq ! iqs))) d' = Some v" "\<bar>v - xi ! iqs\<bar> \<le> 9 / 16 * D"
    by blast
  have "q8_0_qs b ! iqs = snd (dq ! iqs)" "length (q8_0_qs b) = 32" "q8_0_d b = d'"
    using dq(2) iqs by (simp_all add: b_def)
  with q v show ?thesis
    unfolding D_def A_def by auto
qed

text \<open>
  Claim C1, as stated, on a block with the values \<open>127 * s\<close> and \<open>125.5 * s\<close> for
  \<open>s = 1 + 3/4096\<close> and 30 zeros (all of them numbers of the format \<^verbatim>\<open>float\<close>). The
  scale \<open>max \<bar>x\<bar> / 127\<close> is \<open>s\<close>, and the kernel computes it without rounding, but the
  block stores it as \<^verbatim>\<open>half\<close>, \<open>1 + 4/4096\<close>. The second value gets the code \<open>126\<close> and
  is decoded as \<open>126 * (1 + 4/4096)\<close>, which is \<open>4351/8192\<close> away from it: more than half
  the scale, \<open>4099/8192\<close>.
\<close>

theorem C1_counterexample:
  "length block_c1 = 32
   \<and> map float32 block_c1 = map Some block_c1
   \<and> block_amax block_c1 / 127 = 4099 / 4096
   \<and> quantize_q8_0 block_c1
       = Some \<lparr>q8_0_d = 1025 / 1024, q8_0_qs = 127 # 126 # replicate 30 0\<rparr>
   \<and> dequantize_q8_0 [\<lparr>q8_0_d = 1025 / 1024, q8_0_qs = 127 # 126 # replicate 30 0\<rparr>] 0 0
       = Some (130175 / 1024, 64575 / 512)
   \<and> \<bar>64575 / 512 - block_c1 ! 1\<bar> = 4351 / 8192
   \<and> 4351 / 8192 > (block_amax block_c1 / 127) / 2"
  by (simp add: length_block_c1 block_amax_c1 quantize_q8_0_c1 dequantize_q8_0_c1)
    (simp add: block_c1_def float32_c1)

text \<open>
  Claim C1, amended, for the format \<^verbatim>\<open>q8_0\<close>, the only one that has both its encoder and
  its decoder here. For every block of 32 values whose largest absolute value \<open>A\<close> is
  such that the scale \<open>A / 127\<close> is between \<open>2\<^sup>-\<^sup>1\<^sup>4\<close> and \<open>65504\<close> (the normal range of
  \<^verbatim>\<open>half\<close>), \<^verbatim>\<open>quantize_q8_0\<close> gives a block, \<^verbatim>\<open>dequantize_q8_0\<close> gives two values at
  every position of it, and each differs from the value that was encoded by at most
  \<open>9/16\<close> of \<open>A / 127\<close>: half the scale, \<open>127\<close> times the error of storing the scale as
  \<^verbatim>\<open>half\<close>, and the rounding of the single-precision operations.
\<close>

theorem C1_q8_0_round_trip:
  "length xi = 32 \<and> 127 / 2 ^ 14 \<le> block_amax xi \<and> block_amax xi \<le> 127 * 65504 \<and> iqs < 31
   \<longrightarrow> (\<exists>b vx vy. quantize_q8_0 xi = Some b
          \<and> dequantize_q8_0 [b] 0 iqs = Some (vx, vy)
          \<and> \<bar>vx - xi ! iqs\<bar> \<le> 9 / 16 * (block_amax xi / 127)
          \<and> \<bar>vy - xi ! (iqs + 1)\<bar> \<le> 9 / 16 * (block_amax xi / 127))"
proof (intro impI, elim conjE)
  assume len: "length xi = 32" and lo: "127 / 2 ^ 14 \<le> block_amax xi"
    and hi: "block_amax xi \<le> 127 * 65504" and iqs: "iqs < 31"
  from iqs have i0: "iqs < 32" and i1: "iqs + 1 < 32" by simp_all
  from quantize_q8_0_round_trip [OF len lo hi i0] obtain b vx where
    b: "quantize_q8_0 xi = Some b" "length (q8_0_qs b) = 32"
    and vx: "fmul (of_int (q8_0_qs b ! iqs)) (q8_0_d b) = Some vx"
      "\<bar>vx - xi ! iqs\<bar> \<le> 9 / 16 * (block_amax xi / 127)"
    by blast
  from quantize_q8_0_round_trip [OF len lo hi i1] b(1) obtain vy where
    vy: "fmul (of_int (q8_0_qs b ! (iqs + 1))) (q8_0_d b) = Some vy"
      "\<bar>vy - xi ! (iqs + 1)\<bar> \<le> 9 / 16 * (block_amax xi / 127)"
    by auto
  have "dequantize_q8_0 [b] 0 iqs = Some (vx, vy)"
    using b(2) i1 vx(1) vy(1) by (simp add: dequantize_q8_0_def)
  with b(1) vx(2) vy(2) show "\<exists>b vx vy. quantize_q8_0 xi = Some b
          \<and> dequantize_q8_0 [b] 0 iqs = Some (vx, vy)
          \<and> \<bar>vx - xi ! iqs\<bar> \<le> 9 / 16 * (block_amax xi / 127)
          \<and> \<bar>vy - xi ! (iqs + 1)\<bar> \<le> 9 / 16 * (block_amax xi / 127)"
    by blast
qed

theorem C1_q8_0_round_trip_witness:
  "\<exists>b vx vy. quantize_q8_0 block_c1 = Some b
      \<and> dequantize_q8_0 [b] 0 0 = Some (vx, vy)
      \<and> \<bar>vx - block_c1 ! 0\<bar> \<le> 9 / 16 * (block_amax block_c1 / 127)
      \<and> \<bar>vy - block_c1 ! (0 + 1)\<bar> \<le> 9 / 16 * (block_amax block_c1 / 127)"
  using C1_q8_0_round_trip [of block_c1 0]
  by (simp add: length_block_c1 block_amax_c1)

section \<open>Properties of the stream commands\<close>





























text \<open>
  The size that \<^verbatim>\<open>ggml_cuda_pool_malloc\<close> stores through \<^verbatim>\<open>actual_size\<close> is at least the
  size asked for, so a device whose destination buffer has a size other than zero counts as
  used.
\<close>

lemma pool_malloc_actual_size:
  assumes "ggml_cuda_pool_malloc size' dev st = Some (p, a, st')"
  shows "size' \<le> a"
proof (cases "find_best_fit size' (min_size_diff_ok size')
                (g_cuda_buffer_pool st ! current_device st) 0 None SIZE_MAX")
  case None
  with assms show ?thesis
    unfolding ggml_cuda_pool_malloc_def Let_def
    by (auto split: if_splits option.splits)
next
  case (Some j)
  from find_best_fit_Some0 [OF Some]
  have "size' \<le> size_bytes (g_cuda_buffer_pool st ! current_device st ! j)"
    by (simp add: fits_def)
  with assms Some show ?thesis
    unfolding ggml_cuda_pool_malloc_def Let_def
    by (auto split: if_splits)
qed






end
